theory Spec2Isabelle
  imports Main "HOL-Library.Word"
begin

unbundle bit_operations_syntax

section \<open>Strings and errors\<close>

text \<open>
  Go's \<^verbatim>\<open>strings.HasSuffix(s, suffix)\<close> is
  \<^verbatim>\<open>len(s) >= len(suffix) && s[len(s)-len(suffix):] == suffix\<close>.
  Go strings are byte sequences, as \<^typ>\<open>string\<close> is here.
\<close>

definition HasSuffix :: "string \<Rightarrow> string \<Rightarrow> bool" where
  "HasSuffix s suffix =
     (length s \<ge> length suffix \<and> drop (length s - length suffix) s = suffix)"

text \<open>
  Go \<^verbatim>\<open>error\<close> values. A nil error is \<open>None\<close>. \<open>Errorf f\<close> is the value of
  \<^verbatim>\<open>fmt.Errorf(f)\<close> (the format string is kept, not rendered); the other constructors
  are the errors handed back by the operating system and by the collaborators of the
  orchestrator, each carrying its message.
\<close>

datatype error = Errorf string | ExecError string | OSError string | RunnerError string

section \<open>lib/builder.go\<close>

record builder =
  dir :: string
  binary :: string
  errors :: string
  useGodep :: bool

text \<open>
  \<^verbatim>\<open>NewBuilder(dir, bin, useGodep)\<close>. The first argument of the model is
  \<^verbatim>\<open>runtime.GOOS\<close>, a constant of the platform the program was compiled for.
  The field \<open>errors\<close> is not set by the constructor and has Go's zero value, the empty string.
\<close>

definition NewBuilder :: "string \<Rightarrow> string \<Rightarrow> string \<Rightarrow> bool \<Rightarrow> builder" where
  "NewBuilder GOOS d bin godep =
     (let bin1 = (if length bin = 0 then ''bin'' else bin);
          bin2 = (if GOOS = ''windows''
                  then (if \<not> HasSuffix bin1 ''.exe'' then bin1 @ ''.exe'' else bin1)
                  else bin1)
      in \<lparr>dir = d, binary = bin2, errors = '''', useGodep = godep\<rparr>)"

definition Binary :: "builder \<Rightarrow> string" where
  "Binary b = binary b"

definition Errors :: "builder \<Rightarrow> string" where
  "Errors b = errors b"

text \<open>
  The command that \<^verbatim>\<open>Build\<close> hands to \<^verbatim>\<open>os/exec\<close>, and what
  \<^verbatim>\<open>CombinedOutput\<close> gives back: the combined output (field \<open>combined\<close>), the error, and
  \<^verbatim>\<open>command.ProcessState.Success()\<close>. The toolchain is the environment of the program,
  so \<open>Build\<close> takes it as a function from the command to its result.
\<close>

record command =
  argv :: "string list"
  Dir :: string

record cmd_result =
  combined :: string
  err :: "error option"
  ps_success :: bool

definition build_command :: "builder \<Rightarrow> command" where
  "build_command b =
     (if useGodep b
      then \<lparr>argv = [''godep'', ''go'', ''build'', ''-o'', binary b], Dir = dir b\<rparr>
      else \<lparr>argv = [''go'', ''build'', ''-o'', binary b], Dir = dir b\<rparr>)"

definition Build :: "(command \<Rightarrow> cmd_result) \<Rightarrow> builder \<Rightarrow> error option \<times> builder" where
  "Build exec b =
     (let r = exec (build_command b);
          b' =(if err r \<noteq> None \<or> \<not> ps_success r
                then b\<lparr>errors := combined r\<rparr>
                else b\<lparr>errors := ''''\<rparr>)
      in if length (errors b') > 0
         then (Some (Errorf (errors b')), b')
         else (err r, b'))"

section \<open>lib/config.go\<close>

record Config =
  Port :: int
  ProxyTo :: string
  Endpoint :: string

section \<open>The runner\<close>

text \<open>
  Modelled from the spec: the process handle of the runner. The file holding the runner
  (\<^verbatim>\<open>sparkplug.NewRunner\<close>, \<^verbatim>\<open>Runner.Run\<close>, \<^verbatim>\<open>Runner.Kill\<close>) is not among the
  sources; the orchestrator only calls it, so its state and its three operations follow the
  specification's contract of the Runner (\<^verbatim>\<open>Start\<close>, \<^verbatim>\<open>Stop\<close>). The states
  \<^verbatim>\<open>Starting\<close> and \<^verbatim>\<open>Stopping\<close> of the specification are passed through inside one
  synchronous call and are never seen between two calls, so the handle is \<open>Stopped\<close> or
  \<open>Running\<close> here.
\<close>

datatype proc_state = Stopped | Running

record runner =
  pstate :: proc_state

text \<open>
  Modelled from the spec: \<^verbatim>\<open>NewRunner\<close> (constructor of the missing runner). A handle is
  created on Start only, so a new runner has no live process. The path of the binary and
  the pass-through arguments it is given are not part of the model.
\<close>

definition NewRunner :: runner where
  "NewRunner = \<lparr>pstate = Stopped\<rparr>"

text \<open>
  Modelled from the spec: \<^verbatim>\<open>Runner.Run\<close>, the specification's \<^verbatim>\<open>Start(args) -> error\<close>:
  ``fails if a process is already Running; otherwise spawns the current artifact [...],
  transitions Starting->Running once the spawn call returns successfully''. Whether the
  spawn call succeeds is decided by the operating system: the argument \<open>spawned\<close>.
\<close>

definition Run :: "bool \<Rightarrow> runner \<Rightarrow> error option \<times> runner" where
  "Run spawned r =
     (if pstate r = Running then (Some (RunnerError ''already running''), r)
      else if spawned then (None, r\<lparr>pstate := Running\<rparr>)
      else (Some (RunnerError ''spawn failed''), r))"

text \<open>
  Modelled from the spec: \<^verbatim>\<open>Runner.Kill\<close>, the specification's \<^verbatim>\<open>Stop() -> error\<close>:
  ``returns success with no side effect if state is already Stopped; otherwise sends a
  graceful termination request to the child, waits for exit, transitions to Stopped'';
  the handle becomes Stopped ``on confirmed exit'', and a stop that does not complete is
  the error \<^verbatim>\<open>ProcessStopFailure\<close>. Whether the child's exit is confirmed is decided by
  the operating system: the argument \<open>exited\<close>.
\<close>

definition Kill :: "bool \<Rightarrow> runner \<Rightarrow> error option \<times> runner" where
  "Kill exited r =
     (if pstate r = Stopped then (None, r)
      else if exited then (None, r\<lparr>pstate := Stopped\<rparr>)
      else (Some (RunnerError ''process did not stop''), r))"

section \<open>The orchestrator: state, calls and log\<close>

text \<open>
  The calls the orchestrator makes on its collaborators and on the operating system, in the
  order in which they return. Every one of them is synchronous: the next entry is appended
  only after the call of the previous entry has returned.
\<close>

datatype call =
    Setenv string string
  | Getwd
  | ProxyRun
  | SignalNotify
  | RunnerKill
  | BuilderBuild
  | RunnerRun
  | TimeSleep nat
  | FilepathAbs
  | NewWatcher
  | WatcherAdd
  | WatcherClose

text \<open>
  What is written through \<^verbatim>\<open>logger\<close> and \<^verbatim>\<open>fmt\<close>: the literal text or the format
  string, with the arguments kept as they are passed (a trailing newline of a format string
  is left out).
\<close>

datatype logarg = IntArg int | ErrArg error | SignalArg

datatype logline =
    LoggerPrintln string "logarg list"
  | LoggerPrintf string "logarg list"
  | LoggerPrint string "logarg list"
  | LoggerFatal "logarg list"
  | LoggerFatalf string "logarg list"
  | FmtPrintln string

text \<open>
  The state the orchestrator works on: the builder and the runner that \<^verbatim>\<open>mainAction\<close>
  creates and shares by reference, the configuration it hands to the proxy, the package
  variables \<^verbatim>\<open>immediate\<close> and \<^verbatim>\<open>buildError\<close>, the environment variables of the process,
  and the calls made and lines logged so far.
\<close>

record world =
  builder :: builder
  runner :: runner
  config :: Config
  immediate :: bool
  buildError :: "error option"
  environ :: "string \<rightharpoonup> string"
  trace :: "call list"
  logged :: "logline list"

text \<open>
  How the program ends: the exit status, with the calls made and the lines logged up to the
  exit. \<^verbatim>\<open>logger.Fatal\<close> and \<^verbatim>\<open>logger.Fatalf\<close> write their line and call
  \<^verbatim>\<open>os.Exit(1)\<close>.
\<close>

record exit_outcome =
  status :: int
  final_trace :: "call list"
  final_logged :: "logline list"

definition fatal :: "world \<Rightarrow> logline \<Rightarrow> exit_outcome" where
  "fatal w line = \<lparr>status = 1, final_trace = trace w, final_logged = logged w @ [line]\<rparr>"

text \<open>
  What the environment decides during one build or one rebuild cycle: whether the child's
  exit is confirmed when it is killed, what the toolchain answers, and whether the spawn
  succeeds.
\<close>

record cycle_env =
  kill_exited :: bool
  toolchain :: "command \<Rightarrow> cmd_result"
  spawn_ok :: bool

section \<open>The orchestrator: build and the rebuild cycle\<close>

text \<open>
  \<^verbatim>\<open>build(builder, runner)\<close>. The main file without the watcher has the same function
  with the logger as a third parameter, always the package's logger.
\<close>

definition build :: "cycle_env \<Rightarrow> world \<Rightarrow> world" where
  "build e w =
     (let (er, b') = Build (toolchain e) (builder w);
          w1 = w\<lparr>builder := b', trace := trace w @ [BuilderBuild]\<rparr>;
          w2 = (case er of
                  Some x \<Rightarrow>
                    w1\<lparr>buildError := Some x,
                       logged := logged w1 @ [LoggerPrintln ''ERROR! Build failed.'' [],
                                              FmtPrintln (Errors b')]\<rparr>
                | None \<Rightarrow>
                    (let w3 = (if buildError w1 \<noteq> None
                               then w1\<lparr>logged := logged w1 @ [LoggerPrintln ''Build Successful'' []]\<rparr>
                               else w1);
                         w4 = w3\<lparr>buildError := None\<rparr>
                     in if immediate w4
                        then w4\<lparr>runner := snd (Run (spawn_ok e) (runner w4)),
                                trace := trace w4 @ [RunnerRun]\<rparr>
                        else w4))
      in w2\<lparr>trace := trace w2 @ [TimeSleep 100]\<rparr>)"

text \<open>
  The closure \<^verbatim>\<open>rebuilder\<close> of \<^verbatim>\<open>mainAction\<close>: one rebuild cycle. The error that
  \<^verbatim>\<open>runner.Kill()\<close> returns is discarded.
\<close>

definition rebuilder :: "cycle_env \<Rightarrow> world \<Rightarrow> world" where
  "rebuilder e w =
     (let w1 = w\<lparr>logged := logged w @ [FmtPrintln '''',
                                         LoggerPrintln ''Restarting web server...'' [],
                                         FmtPrintln '''']\<rparr>;
          w2 = w1\<lparr>runner := snd (Kill (kill_exited e) (runner w1)),
                  trace := trace w1 @ [RunnerKill]\<rparr>
      in build e w2)"

text \<open>
  The closure that the main file without the watcher hands to \<^verbatim>\<open>proxy.Run\<close>: the same cycle without
  the announcement.
\<close>

definition rebuilder_p1 :: "cycle_env \<Rightarrow> world \<Rightarrow> world" where
  "rebuilder_p1 e w =
     build e (w\<lparr>runner := snd (Kill (kill_exited e) (runner w)),
                trace := trace w @ [RunnerKill]\<rparr>)"

section \<open>The filesystem watcher\<close>

text \<open>
  An event of \<^verbatim>\<open>fsnotify\<close>: the path and the bit mask of operations
  (\<^verbatim>\<open>type Op uint32\<close>, the constants are \<^verbatim>\<open>1 << iota\<close>).
\<close>

record fs_event =
  Name :: string
  Op :: "32 word"

definition Create :: "32 word" where "Create = 1"
definition Write :: "32 word" where "Write = 2"
definition Remove :: "32 word" where "Remove = 4"
definition Rename :: "32 word" where "Rename = 8"

text \<open>
  The condition under which the watcher goroutine of \<^verbatim>\<open>createWatcher\<close> calls the
  rebuilder. \<open>bin\<close> is the parameter \<^verbatim>\<open>binary\<close> of \<^verbatim>\<open>createWatcher\<close>.
\<close>

definition triggers :: "string \<Rightarrow> fs_event \<Rightarrow> bool" where
  "triggers bin event =
     (let umaskBinary = bin @ ''-go-tmp-umask''
      in \<not> HasSuffix (Name event) bin \<and>
         \<not> HasSuffix (Name event) umaskBinary \<and>
         (Op event AND Write = Write \<or>
          Op event AND Rename = Rename \<or>
          Op event AND Create = Create \<or>
          Op event AND Remove = Remove))"

text \<open>
  The loop \<^verbatim>\<open>for event := range watcher.Events\<close> of the watcher goroutine, over the
  events the channel delivers, in order. The rebuilder is called in the loop body, so the
  next event is received only after the cycle of the previous one has returned; an event
  sent meanwhile waits in the channel. Each event comes with what the environment decides
  during the cycle it may start.
\<close>

fun watcher_loop :: "string \<Rightarrow> (fs_event \<times> cycle_env) list \<Rightarrow> world \<Rightarrow> world" where
  "watcher_loop bin [] w = w"
| "watcher_loop bin ((event, e) # rest) w =
     watcher_loop bin rest (if triggers bin event then rebuilder e w else w)"

section \<open>Notifications, restart hits and cycles side by side\<close>

text \<open>
  One rebuild cycle, call by call. A cycle that is under way stands before one of its calls:
  before the announcement and \<^verbatim>\<open>runner.Kill()\<close>, before \<^verbatim>\<open>builder.Build()\<close>, inside
  \<^verbatim>\<open>builder.Build()\<close> while the toolchain runs, before \<^verbatim>\<open>runner.Run()\<close>, and before the
  pause that ends \<open>build\<close>. \<open>cycle_step\<close> makes the next call of \<open>rebuilder\<close> and
  \<open>build\<close> on the world as it is at that moment and says where the cycle stands then
  (\<open>None\<close>: the rebuilder has returned). The effects of \<^verbatim>\<open>builder.Build()\<close> and what
  \<open>build\<close> does with its result take place when the toolchain has answered.
\<close>

datatype phase = AtKill | AtBuild | InBuild | AtRun | AtSleep

fun cycle_step :: "cycle_env \<Rightarrow> phase \<Rightarrow> world \<Rightarrow> phase option \<times> world" where
  "cycle_step e AtKill w =
     (let w1 = w\<lparr>logged := logged w @ [FmtPrintln '''',
                                         LoggerPrintln ''Restarting web server...'' [],
                                         FmtPrintln '''']\<rparr>
      in (Some AtBuild,
          w1\<lparr>runner := snd (Kill (kill_exited e) (runner w1)),
             trace := trace w1 @ [RunnerKill]\<rparr>))"
| "cycle_step e AtBuild w = (Some InBuild, w)"
| "cycle_step e InBuild w =
     (let (er, b') = Build (toolchain e) (builder w);
          w1 = w\<lparr>builder := b', trace := trace w @ [BuilderBuild]\<rparr>
      in case er of
           Some x \<Rightarrow>
             (Some AtSleep,
              w1\<lparr>buildError := Some x,
                 logged := logged w1 @ [LoggerPrintln ''ERROR! Build failed.'' [],
                                        FmtPrintln (Errors b')]\<rparr>)
         | None \<Rightarrow>
             (let w3 = (if buildError w1 \<noteq> None
                        then w1\<lparr>logged := logged w1 @ [LoggerPrintln ''Build Successful'' []]\<rparr>
                        else w1);
                  w4 = w3\<lparr>buildError := None\<rparr>
              in (if immediate w4 then Some AtRun else Some AtSleep, w4)))"
| "cycle_step e AtRun w =
     (Some AtSleep,
      w\<lparr>runner := snd (Run (spawn_ok e) (runner w)), trace := trace w @ [RunnerRun]\<rparr>)"
| "cycle_step e AtSleep w = (None, w\<lparr>trace := trace w @ [TimeSleep 100]\<rparr>)"

text \<open>
  The goroutines that call the rebuilder, and what they share. \<open>queue\<close> holds the
  notifications that were produced and that the watcher loop has not received yet;
  \<open>watcher\<close> is the cycle that the watcher goroutine is running, if any; \<open>handlers\<close> are
  the cycles that the tasks of restart requests are running; \<open>shared\<close> is the world all of
  them work on. The rebuilder closure takes no lock, so any of these cycles may make its next
  call at any moment.
\<close>

record sys_state =
  queue :: "(fs_event \<times> cycle_env) list"
  watcher :: "(phase \<times> cycle_env) option"
  handlers :: "(phase \<times> cycle_env) list"
  shared :: world

text \<open>
  What can happen next: a notification is produced; the watcher loop receives the next
  notification; the cycle of the watcher goroutine makes its next call; a restart request
  arrives; the cycle of the \<open>i\<close>-th request task under way makes its next call.
\<close>

datatype action =
    Notify fs_event cycle_env
  | Receive
  | WatcherStep
  | Hit cycle_env
  | HandlerStep nat

text \<open>The entry of a cycle in the list of request tasks after a step: none if it has returned.\<close>

definition advance :: "cycle_env \<Rightarrow> phase option \<Rightarrow> (phase \<times> cycle_env) list" where
  "advance e next = (case next of None \<Rightarrow> [] | Some q \<Rightarrow> [(q, e)])"

text \<open>
  Modelled from the spec: the restart path of the proxy (the proxy is not among the sources;
  \<^verbatim>\<open>mainAction\<close> hands it the rebuilder closure in \<^verbatim>\<open>proxy.Run(config, rebuilder)\<close>). A
  request on the restart path invokes the rebuild (section 4.4), in a task of its own: ``one
  concurrent task per inbound HTTP connection/request'' (section 5). So a hit starts a cycle
  of the rebuilder beside whatever else is under way.
\<close>

definition restart_hit :: "cycle_env \<Rightarrow> sys_state \<Rightarrow> sys_state" where
  "restart_hit e s = s\<lparr>handlers := handlers s @ [(AtKill, e)]\<rparr>"

text \<open>
  One step. The watcher loop receives only when it is not inside the rebuilder, as the body
  of \<^verbatim>\<open>for event := range watcher.Events\<close> calls the rebuilder and waits for it. A step
  that cannot be taken gives \<open>None\<close>.
\<close>

fun sys_step :: "string \<Rightarrow> action \<Rightarrow> sys_state \<Rightarrow> sys_state option" where
  "sys_step bin (Notify event e) s = Some (s\<lparr>queue := queue s @ [(event, e)]\<rparr>)"
| "sys_step bin Receive s =
     (case watcher s of
        Some c \<Rightarrow> None
      | None \<Rightarrow>
          (case queue s of
             [] \<Rightarrow> None
           | (event, e) # rest \<Rightarrow>
               Some (s\<lparr>queue := rest,
                        watcher := (if triggers bin event then Some (AtKill, e) else None)\<rparr>)))"
| "sys_step bin WatcherStep s =
     (case watcher s of
        None \<Rightarrow> None
      | Some (p, e) \<Rightarrow>
          Some (s\<lparr>watcher := map_option (\<lambda>q. (q, e)) (fst (cycle_step e p (shared s))),
                   shared := snd (cycle_step e p (shared s))\<rparr>))"
| "sys_step bin (Hit e) s = Some (restart_hit e s)"
| "sys_step bin (HandlerStep i) s =
     (if i < length (handlers s)
      then (case handlers s ! i of
              (p, e) \<Rightarrow>
                Some (s\<lparr>handlers := take i (handlers s)
                                       @ advance e (fst (cycle_step e p (shared s)))
                                       @ drop (Suc i) (handlers s),
                         shared := snd (cycle_step e p (shared s))\<rparr>))
      else None)"

text \<open>
  A schedule is a list of steps. \<open>notified\<close> are the notifications it produces, in order,
  and \<open>hits\<close> is the number of its restart requests.
\<close>

fun sys_run :: "string \<Rightarrow> action list \<Rightarrow> sys_state \<Rightarrow> sys_state option" where
  "sys_run bin [] s = Some s"
| "sys_run bin (a # sched) s =
     (case sys_step bin a s of None \<Rightarrow> None | Some s' \<Rightarrow> sys_run bin sched s')"

fun notified :: "action list \<Rightarrow> (fs_event \<times> cycle_env) list" where
  "notified [] = []"
| "notified (Notify event e # sched) = (event, e) # notified sched"
| "notified (a # sched) = notified sched"

fun hits :: "action list \<Rightarrow> nat" where
  "hits [] = 0"
| "hits (Hit e # sched) = Suc (hits sched)"
| "hits (a # sched) = hits sched"

text \<open>
  The state with nothing waiting and nothing under way, and what is under way in a state:
  the cycles, and those of them that are inside \<^verbatim>\<open>builder.Build()\<close>.
\<close>

definition idle_state :: "world \<Rightarrow> sys_state" where
  "idle_state w = \<lparr>queue = [], watcher = None, handlers = [], shared = w\<rparr>"

definition idle :: "sys_state \<Rightarrow> bool" where
  "idle s = (queue s = [] \<and> watcher s = None \<and> handlers s = [])"

definition cycles_in_flight :: "sys_state \<Rightarrow> nat" where
  "cycles_in_flight s = (case watcher s of None \<Rightarrow> 0 | Some c \<Rightarrow> 1) + length (handlers s)"

definition builds_in_progress :: "sys_state \<Rightarrow> nat" where
  "builds_in_progress s =
     (case watcher s of None \<Rightarrow> 0 | Some c \<Rightarrow> (if fst c = InBuild then 1 else 0))
     + length (filter (\<lambda>c. fst c = InBuild) (handlers s))"

text \<open>
  \<open>owed\<close>: the builds still to come from what is waiting or under way, one for each
  notification in the queue that passes the condition and one for each cycle that has not
  left \<^verbatim>\<open>builder.Build()\<close> yet.
\<close>

fun owes :: "phase \<Rightarrow> nat" where
  "owes AtKill = 1"
| "owes AtBuild = 1"
| "owes InBuild = 1"
| "owes AtRun = 0"
| "owes AtSleep = 0"

definition owed :: "string \<Rightarrow> sys_state \<Rightarrow> nat" where
  "owed bin s =
     length (filter (\<lambda>p. triggers bin (fst p)) (queue s))
     + (case watcher s of None \<Rightarrow> 0 | Some c \<Rightarrow> owes (fst c))
     + sum_list (map (\<lambda>c. owes (fst c)) (handlers s))"

text \<open>
  \<open>finish\<close>: the world that a cycle leaves when it makes all its remaining calls with no
  other call between them; \<open>settled\<close>: the world once the watcher's cycle has done so.
\<close>

fun steps_left :: "phase \<Rightarrow> nat" where
  "steps_left AtKill = 4"
| "steps_left AtBuild = 3"
| "steps_left InBuild = 2"
| "steps_left AtRun = 1"
| "steps_left AtSleep = 0"

function finish :: "cycle_env \<Rightarrow> phase \<Rightarrow> world \<Rightarrow> world" where
  "finish e p w =
     (case fst (cycle_step e p w) of
        None \<Rightarrow> snd (cycle_step e p w)
      | Some q \<Rightarrow> finish e q (snd (cycle_step e p w)))"
  by pat_completeness auto
termination
proof (relation "measure (\<lambda>(e, p, w). steps_left p)")
  show "wf (measure (\<lambda>(e, p, w). steps_left p))"
    by simp
next
  fix e :: cycle_env and p q :: phase and w :: world
  assume "fst (cycle_step e p w) = Some q"
  then have "steps_left q < steps_left p"
    by (cases p) (auto simp: Let_def split: prod.splits option.splits if_splits)
  then show "((e, q, snd (cycle_step e p w)), (e, p, w)) \<in> measure (\<lambda>(e, p, w). steps_left p)"
    by simp
qed

declare finish.simps [simp del]

definition settled :: "sys_state \<Rightarrow> world" where
  "settled s = (case watcher s of None \<Rightarrow> shared s | Some c \<Rightarrow> finish (snd c) (fst c) (shared s))"

text \<open>
  \<^verbatim>\<open>createWatcher(path, binary, rebuilder)\<close> up to the start of its goroutines: each of
  the three steps either fails, which is fatal, or succeeds.
\<close>

record watch_env =
  abs_err :: "error option"
  new_watcher_err :: "error option"
  add_err :: "error option"

definition createWatcher :: "watch_env \<Rightarrow> world \<Rightarrow> exit_outcome + world" where
  "createWatcher we w =
     (let w1 = w\<lparr>trace := trace w @ [FilepathAbs]\<rparr>
      in case abs_err we of
           Some x \<Rightarrow> Inl (fatal w1 (LoggerFatalf ''ERROR! Failed to resolve path: %v.'' [ErrArg x]))
         | None \<Rightarrow>
             (let w2 = w1\<lparr>trace := trace w1 @ [NewWatcher]\<rparr>
              in case new_watcher_err we of
                   Some x \<Rightarrow>
                     Inl (fatal w2 (LoggerFatalf ''ERROR! Failed to watch filesystem: %v.'' [ErrArg x]))
                 | None \<Rightarrow>
                     (let w3 = w2\<lparr>trace := trace w2 @ [WatcherAdd]\<rparr>
                      in case add_err we of
                           Some x \<Rightarrow>
                             Inl (fatal w3
                                    (LoggerFatalf ''ERROR! Failed to watch filesystem: %v.'' [ErrArg x]))
                         | None \<Rightarrow> Inr w3)))"

section \<open>Signals and exit\<close>

text \<open>
  \<^verbatim>\<open>blockUntilExit(runner, watcher)\<close>, from the registration of the signal channel on:
  the function blocks until an interrupt or terminate signal is received and never
  returns. \<open>exited\<close> is what the operating system decides when the child is killed.
\<close>

definition blockUntilExit :: "bool \<Rightarrow> world \<Rightarrow> exit_outcome" where
  "blockUntilExit exited w =
     (let w1 = w\<lparr>trace := trace w @ [SignalNotify]\<rparr>;
          (er, r') = Kill exited (runner w1);
          w2 = w1\<lparr>runner := r', trace := trace w1 @ [RunnerKill]\<rparr>
      in case er of
           Some x \<Rightarrow> fatal w2 (LoggerFatalf ''ERROR! Could not kill server: %v.'' [ErrArg x])
         | None \<Rightarrow>
             \<lparr>status = 0, final_trace = trace w2 @ [WatcherClose], final_logged = logged w2\<rparr>)"

text \<open>
  The main file without the watcher: \<^verbatim>\<open>shutdown(runner)\<close> registers the signal channel and starts a
  goroutine, and returns at once; \<open>shutdown_handler\<close> is the body of that goroutine once the
  signal is received.
\<close>

definition shutdown :: "world \<Rightarrow> world" where
  "shutdown w = w\<lparr>trace := trace w @ [SignalNotify]\<rparr>"

definition shutdown_handler :: "bool \<Rightarrow> world \<Rightarrow> exit_outcome" where
  "shutdown_handler exited w =
     (let w1 = w\<lparr>logged := logged w @ [LoggerPrintln ''Got signal: '' [SignalArg]]\<rparr>;
          (er, r') = Kill exited (runner w1);
          w2 = w1\<lparr>runner := r', trace := trace w1 @ [RunnerKill]\<rparr>;
          w3 = (case er of
                  Some x \<Rightarrow> w2\<lparr>logged := logged w2 @ [LoggerPrint ''Error killing: '' [ErrArg x]]\<rparr>
                | None \<Rightarrow> w2)
      in \<lparr>status = 1, final_trace = trace w3, final_logged = logged w3\<rparr>)"

section \<open>mainAction\<close>

text \<open>\<^verbatim>\<open>strconv.Itoa\<close>: the decimal digits, with a minus sign for a negative number.\<close>

fun nat_digits :: "nat \<Rightarrow> string" where
  "nat_digits n =
     (if n < 10 then [''0123456789'' ! n]
      else nat_digits (n div 10) @ [''0123456789'' ! (n mod 10)])"

declare nat_digits.simps [simp del]

definition Itoa :: "int \<Rightarrow> string" where
  "Itoa i = (if i < 0 then CHR ''-'' # nat_digits (nat (- i)) else nat_digits (nat i))"

text \<open>
  The global flags of the command line, with the defaults that \<^verbatim>\<open>main\<close> declares.
\<close>

record flags =
  flag_port :: int
  flag_appPort :: int
  flag_bin :: string
  flag_endpoint :: string
  flag_path :: string
  flag_lazy :: bool
  flag_godep :: bool

definition default_flags :: flags where
  "default_flags =
     \<lparr>flag_port = 3000, flag_appPort = 3001, flag_bin = ''.sparkplug-bin'',
      flag_endpoint = ''/restart'', flag_path = ''.'', flag_lazy = False, flag_godep = False\<rparr>"

text \<open>
  What the environment decides during startup: the result of \<^verbatim>\<open>os.Getwd\<close>, the error
  of \<^verbatim>\<open>proxy.Run\<close> (the proxy is not among the sources; the orchestrator uses its
  returned error only), the outcome of the first build, and the three steps of
  \<^verbatim>\<open>createWatcher\<close>.
\<close>

record startup_env =
  getwd :: "error + string"
  proxy_err :: "error option"
  first_build :: cycle_env
  watch :: watch_env

text \<open>
  \<^verbatim>\<open>mainAction\<close> of the main file with the filesystem watcher, up to the line that
  declares the proxy started. \<open>env0\<close> is the environment of the process at its start.
\<close>

definition mainAction_init ::
  "string \<Rightarrow> flags \<Rightarrow> (string \<rightharpoonup> string) \<Rightarrow> startup_env \<Rightarrow> exit_outcome + world" where
  "mainAction_init GOOS c env0 se =
     (let port = flag_port c;
          appPort = Itoa (flag_appPort c);
          imm = \<not> flag_lazy c;
          env1 = env0(''PORT'' \<mapsto> appPort);
          tr1 = [Setenv ''PORT'' appPort, Getwd]
      in case getwd se of
           Inl x \<Rightarrow> Inl \<lparr>status = 1, final_trace = tr1, final_logged = [LoggerFatal [ErrArg x]]\<rparr>
         | Inr wd \<Rightarrow>
             (let b = NewBuilder GOOS (flag_path c) (flag_bin c) (flag_godep c);
                  r = NewRunner;
                  cfg = \<lparr>Port = port, ProxyTo = ''http://localhost:'' @ appPort,
                         Endpoint = flag_endpoint c\<rparr>;
                  w = \<lparr>builder = b, runner = r, config = cfg, immediate = imm,
                       buildError = None, environ = env1, trace = tr1 @ [ProxyRun], logged = []\<rparr>
              in case proxy_err se of
                   Some x \<Rightarrow>
                     Inl (fatal w (LoggerFatalf ''ERROR! Failed to start the proxy on port %d: %v.''
                                     [IntArg port, ErrArg x]))
                 | None \<Rightarrow>
                     Inr (w\<lparr>logged := [LoggerPrintf ''Listening on port %d.'' [IntArg port]]\<rparr>)))"

text \<open>
  The rest of \<^verbatim>\<open>mainAction\<close> up to the call of \<^verbatim>\<open>blockUntilExit\<close>: the initial build,
  then \<^verbatim>\<open>createWatcher(path, binary, rebuilder)\<close>.
\<close>

definition mainAction_startup ::
  "string \<Rightarrow> flags \<Rightarrow> (string \<rightharpoonup> string) \<Rightarrow> startup_env \<Rightarrow> exit_outcome + world" where
  "mainAction_startup GOOS c env0 se =
     (case mainAction_init GOOS c env0 se of
        Inl x \<Rightarrow> Inl x
      | Inr w \<Rightarrow> createWatcher (watch se) (build (first_build se) w))"

text \<open>
  The whole of \<^verbatim>\<open>mainAction\<close>. The watcher goroutine runs beside the main goroutine, which
  is blocked in \<^verbatim>\<open>blockUntilExit\<close>; \<open>events\<close> are the notifications whose handling is
  over when the signal is received. \<^verbatim>\<open>createWatcher\<close> is given the flag \<^verbatim>\<open>bin\<close> as it was
  typed (the local variable \<^verbatim>\<open>binary\<close>), not \<^verbatim>\<open>builder.Binary()\<close>.
\<close>

definition mainAction ::
  "string \<Rightarrow> flags \<Rightarrow> (string \<rightharpoonup> string) \<Rightarrow> startup_env \<Rightarrow>
   (fs_event \<times> cycle_env) list \<Rightarrow> bool \<Rightarrow> exit_outcome" where
  "mainAction GOOS c env0 se events exited =
     (case mainAction_startup GOOS c env0 se of
        Inl x \<Rightarrow> x
      | Inr w \<Rightarrow> blockUntilExit exited (watcher_loop (flag_bin c) events w))"

text \<open>
  \<^verbatim>\<open>mainAction\<close> of the main file without the watcher: the proxy is started, the
  signal handler is installed by \<^verbatim>\<open>shutdown\<close>, the initial build is made and the function
  returns. The steps of \<^verbatim>\<open>createWatcher\<close> in \<open>se\<close> are not used.
\<close>

definition mainAction_p1 ::
  "string \<Rightarrow> flags \<Rightarrow> (string \<rightharpoonup> string) \<Rightarrow> startup_env \<Rightarrow> exit_outcome + world" where
  "mainAction_p1 GOOS c env0 se =
     (let port = flag_port c;
          appPort = Itoa (flag_appPort c);
          imm = \<not> flag_lazy c;
          env1 = env0(''PORT'' \<mapsto> appPort);
          tr1 = [Setenv ''PORT'' appPort, Getwd]
      in case getwd se of
           Inl x \<Rightarrow> Inl \<lparr>status = 1, final_trace = tr1, final_logged = [LoggerFatal [ErrArg x]]\<rparr>
         | Inr wd \<Rightarrow>
             (let b = NewBuilder GOOS (flag_path c) (flag_bin c) (flag_godep c);
                  r = NewRunner;
                  cfg = \<lparr>Port = port, ProxyTo = ''http://localhost:'' @ appPort,
                         Endpoint = flag_endpoint c\<rparr>;
                  w = \<lparr>builder = b, runner = r, config = cfg, immediate = imm,
                       buildError = None, environ = env1, trace = tr1 @ [ProxyRun], logged = []\<rparr>
              in case proxy_err se of
                   Some x \<Rightarrow> Inl (fatal w (LoggerFatal [ErrArg x]))
                 | None \<Rightarrow>
                     Inr (build (first_build se)
                            (shutdown
                               (w\<lparr>logged := [LoggerPrintf ''listening on port %d'' [IntArg port]]\<rparr>)))))"

section \<open>Observations on runs\<close>

text \<open>
  \<open>precedes a b tr\<close>: some call \<open>a\<close> of the trace is followed, later, by a call \<open>b\<close>.
\<close>

fun precedes :: "call \<Rightarrow> call \<Rightarrow> call list \<Rightarrow> bool" where
  "precedes a b [] = False"
| "precedes a b (c # cs) = (if c = a then b \<in> set cs else precedes a b cs)"

text \<open>The calls made by a startup, whether it ended in an exit or in a running program.\<close>

definition calls_of :: "exit_outcome + world \<Rightarrow> call list" where
  "calls_of r = (case r of Inl x \<Rightarrow> final_trace x | Inr w \<Rightarrow> trace w)"

text \<open>The two shapes of the calls of one rebuild cycle: without and with the start.\<close>

definition cycle_calls :: "call list set" where
  "cycle_calls = {[RunnerKill, BuilderBuild, TimeSleep 100],
                  [RunnerKill, BuilderBuild, RunnerRun, TimeSleep 100]}"

section \<open>Concrete inputs\<close>

text \<open>
  Three answers of the toolchain: a clean build, a compile error (exit status 2 with
  diagnostics), and a toolchain that cannot be started (an error and no output).
\<close>

definition toolchain_ok :: "command \<Rightarrow> cmd_result" where
  "toolchain_ok cmd = \<lparr>combined = '''', err = None, ps_success = True\<rparr>"

definition toolchain_fails :: "command \<Rightarrow> cmd_result" where
  "toolchain_fails cmd =
     \<lparr>combined = ''./main.go:3:1: syntax error'', err = Some (ExecError ''exit status 2''),
      ps_success = False\<rparr>"

definition toolchain_missing :: "command \<Rightarrow> cmd_result" where
  "toolchain_missing cmd =
     \<lparr>combined = '''', err = Some (ExecError ''exec: go: executable file not found in $PATH''),
      ps_success = False\<rparr>"

text \<open>
  The builder for the default flags on Linux, and three environments of a cycle: all goes
  well; the build fails; the build fails and the child's exit is not confirmed.
\<close>

definition builder0 :: builder where
  "builder0 = NewBuilder ''linux'' ''.'' ''.sparkplug-bin'' False"

definition cycle_ok :: cycle_env where
  "cycle_ok = \<lparr>kill_exited = True, toolchain = toolchain_ok, spawn_ok = True\<rparr>"

definition cycle_broken :: cycle_env where
  "cycle_broken = \<lparr>kill_exited = True, toolchain = toolchain_fails, spawn_ok = True\<rparr>"

definition cycle_stuck :: cycle_env where
  "cycle_stuck = \<lparr>kill_exited = False, toolchain = toolchain_fails, spawn_ok = True\<rparr>"

text \<open>
  Worlds between two cycles: with no child process, with a running child, with a running
  child in lazy mode, and the first one on Windows.
\<close>

definition world0 :: world where
  "world0 =
     \<lparr>builder = builder0, runner = NewRunner,
      config = \<lparr>Port = 3000, ProxyTo = ''http://localhost:3001'', Endpoint = ''/restart''\<rparr>,
      immediate = True, buildError = None, environ = [''PORT'' \<mapsto> ''3001''],
      trace = [], logged = []\<rparr>"

definition world_running :: world where
  "world_running = world0\<lparr>runner := \<lparr>pstate = Running\<rparr>\<rparr>"


definition world_windows :: world where
  "world_windows = world0\<lparr>builder := NewBuilder ''windows'' ''.'' ''.sparkplug-bin'' False\<rparr>"

text \<open>A startup in which nothing fails.\<close>

definition startup_ok :: startup_env where
  "startup_ok =
     \<lparr>getwd = Inr ''/home/dev/app'', proxy_err = None, first_build = cycle_ok,
      watch = \<lparr>abs_err = None, new_watcher_err = None, add_err = None\<rparr>\<rparr>"

text \<open>
  Notifications: a source file is written; the artifact is created on Linux; the artifact is
  written on Windows (\<open>CHR 0x5C\<close> is the backslash).
\<close>

definition write_main :: fs_event where
  "write_main = \<lparr>Name = ''/home/dev/app/main.go'', Op = Write\<rparr>"

definition artifact_linux :: fs_event where
  "artifact_linux = \<lparr>Name = ''/home/dev/app/.sparkplug-bin'', Op = Create\<rparr>"

definition artifact_windows :: fs_event where
  "artifact_windows =
     \<lparr>Name = ''C:'' @ [CHR 0x5C] @ ''app'' @ [CHR 0x5C] @ Binary (builder world_windows),
      Op = Write\<rparr>"

section \<open>The builder: default name, platform suffix, error text\<close>

lemma HasSuffix_append: "HasSuffix (s @ t) t"
  by (simp add: HasSuffix_def)

lemma HasSuffix_iff: "HasSuffix s t \<longleftrightarrow> (\<exists>p. s = p @ t)"
proof
  assume "HasSuffix s t"
  then have "s = take (length s - length t) s @ t"
    by (metis HasSuffix_def append_take_drop_id)
  then show "\<exists>p. s = p @ t" ..
next
  assume "\<exists>p. s = p @ t"
  then show "HasSuffix s t"
    by (auto simp: HasSuffix_def)
qed

lemma no_double_exe:
  assumes "\<not> HasSuffix s ''.exe''"
  shows "\<not> HasSuffix (s @ ''.exe'') ''.exe.exe''"
proof
  assume "HasSuffix (s @ ''.exe'') ''.exe.exe''"
  then obtain p where "s @ ''.exe'' = p @ ''.exe.exe''"
    unfolding HasSuffix_iff by blast
  then have "s @ ''.exe'' = (p @ ''.exe'') @ ''.exe''"
    by simp
  then have "s = p @ ''.exe''"
    by (simp only: append_same_eq)
  with assms show False
    by (simp add: HasSuffix_append)
qed

text \<open>
  C9. \<^verbatim>\<open>NewBuilder\<close> replaces an empty binary name by \<open>bin\<close> before the platform suffix is
  considered, so \<open>Binary\<close> is never the empty string. On Windows the returned name ends in
  \<open>.exe\<close>; a name that already ends in \<open>.exe\<close> is returned as it is, and a name that does
  not gets the suffix once (the result does not end in \<open>.exe.exe\<close>). On every other platform
  the name, after the default, is returned without a suffix.
\<close>

theorem NewBuilder_binary_name:
  "Binary (NewBuilder GOOS d bin godep) \<noteq> ''''
   \<and> Binary (NewBuilder ''windows'' d '''' godep) = ''bin.exe''
   \<and> (GOOS \<noteq> ''windows'' \<longrightarrow>
        Binary (NewBuilder GOOS d bin godep) = (if bin = '''' then ''bin'' else bin))
   \<and> HasSuffix (Binary (NewBuilder ''windows'' d bin godep)) ''.exe''
   \<and> (HasSuffix bin ''.exe'' \<longrightarrow> Binary (NewBuilder ''windows'' d bin godep) = bin)
   \<and> (\<not> HasSuffix bin ''.exe'' \<longrightarrow>
        Binary (NewBuilder ''windows'' d bin godep) = (if bin = '''' then ''bin'' else bin) @ ''.exe''
        \<and> \<not> HasSuffix (Binary (NewBuilder ''windows'' d bin godep)) ''.exe.exe'')"
proof -
  have ne: "Binary (NewBuilder GOOS d bin godep) \<noteq> ''''"
    by (simp add: Binary_def NewBuilder_def Let_def)
  have e1: "Binary (NewBuilder ''windows'' d '''' godep) = ''bin.exe''"
    by (simp add: Binary_def NewBuilder_def Let_def HasSuffix_def)
  have e2: "GOOS \<noteq> ''windows'' \<longrightarrow>
        Binary (NewBuilder GOOS d bin godep) = (if bin = '''' then ''bin'' else bin)"
    by (simp add: Binary_def NewBuilder_def Let_def)
  have sfx: "HasSuffix (Binary (NewBuilder ''windows'' d bin godep)) ''.exe''"
    by (simp add: Binary_def NewBuilder_def Let_def HasSuffix_append)
  have same: "HasSuffix bin ''.exe'' \<longrightarrow> Binary (NewBuilder ''windows'' d bin godep) = bin"
    by (auto simp: Binary_def NewBuilder_def Let_def HasSuffix_def)
  have bin_no: "\<not> HasSuffix ''bin'' ''.exe''"
    by (simp add: HasSuffix_def)
  have once: "\<not> HasSuffix bin ''.exe'' \<longrightarrow>
        Binary (NewBuilder ''windows'' d bin godep) = (if bin = '''' then ''bin'' else bin) @ ''.exe''
        \<and> \<not> HasSuffix (Binary (NewBuilder ''windows'' d bin godep)) ''.exe.exe''"
  proof
    assume n: "\<not> HasSuffix bin ''.exe''"
    let ?b = "if bin = '''' then ''bin'' else bin"
    have n': "\<not> HasSuffix ?b ''.exe''"
      using n bin_no by simp
    have eq: "Binary (NewBuilder ''windows'' d bin godep) = ?b @ ''.exe''"
      using n' by (simp add: Binary_def NewBuilder_def Let_def)
    show "Binary (NewBuilder ''windows'' d bin godep) = ?b @ ''.exe''
        \<and> \<not> HasSuffix (Binary (NewBuilder ''windows'' d bin godep)) ''.exe.exe''"
      using eq no_double_exe [OF n'] by simp
  qed
  from ne e1 e2 sfx same once show ?thesis
    by blast
qed

theorem NewBuilder_binary_name_witness:
  "Binary (NewBuilder ''windows'' ''.'' ''app.exe'' False) = ''app.exe''
   \<and> Binary (NewBuilder ''windows'' ''.'' ''.sparkplug-bin'' False) = ''.sparkplug-bin.exe''
   \<and> Binary (NewBuilder ''linux'' ''.'' '''' False) = ''bin''"
proof -
  have h1: "HasSuffix ''app.exe'' ''.exe''"
    by (simp add: HasSuffix_def)
  have h2: "\<not> HasSuffix ''.sparkplug-bin'' ''.exe''"
    by (simp add: HasSuffix_def)
  have h3: "''linux'' \<noteq> ''windows''"
    by simp
  show ?thesis
    using h1 h2 h3
      NewBuilder_binary_name [of "''windows''" "''.''" "''app.exe''" False]
      NewBuilder_binary_name [of "''windows''" "''.''" "''.sparkplug-bin''" False]
      NewBuilder_binary_name [of "''linux''" "''.''" "''''" False]
    by simp
qed

text \<open>What \<open>Build\<close> returns and what it stores, in terms of the toolchain's answer.\<close>

lemma Build_fst:
  "fst (Build exec b) =
     (let r = exec (build_command b)
      in if (err r \<noteq> None \<or> \<not> ps_success r) \<and> combined r \<noteq> ''''
         then Some (Errorf (combined r)) else err r)"
  by (simp add: Build_def Let_def)

lemma Build_snd:
  "snd (Build exec b) =
     (let r = exec (build_command b)
      in if err r \<noteq> None \<or> \<not> ps_success r then b\<lparr>errors := combined r\<rparr> else b\<lparr>errors := ''''\<rparr>)"
  by (simp add: Build_def Let_def)

lemma build_command_Build: "build_command (snd (Build exec b)) = build_command b"
  by (simp add: Build_snd build_command_def Let_def)

lemma Build_fst_command:
  "build_command b' = build_command b \<Longrightarrow> fst (Build exec b') = fst (Build exec b)"
  by (simp add: Build_fst)

lemma Build_ok_any: "fst (Build toolchain_ok b) = None"
  by (simp add: Build_fst toolchain_ok_def)

lemma Build_fails_any:
  "fst (Build toolchain_fails b) = Some (Errorf ''./main.go:3:1: syntax error'')"
  by (simp add: Build_fst toolchain_fails_def)

text \<open>
  C2, as stated, fails on a build that fails without output. When the toolchain cannot be
  started, \<^verbatim>\<open>CombinedOutput\<close> returns an error and an empty output: \<open>Build\<close> stores the
  empty output and returns the error through its last line, \<^verbatim>\<open>return err\<close>. The build
  did not succeed and \<open>Errors\<close> is empty.
\<close>

theorem Build_failed_without_text:
  "\<not> (Errors (snd (Build toolchain_missing builder0)) \<noteq> ''''
       \<longleftrightarrow> fst (Build toolchain_missing builder0) \<noteq> None)"
  by (simp add: Build_fst Build_snd Errors_def toolchain_missing_def)

text \<open>
  C2, amended. After every call to \<open>Build\<close>, \<open>Errors\<close> is the combined output of the tool
  if the command returned an error or did not exit successfully, and is empty otherwise.
  Hence a non-empty \<open>Errors\<close> means that \<open>Build\<close> returned an error, a successful build
  clears any previous text, and \<open>Build\<close> returns an error exactly when the command returned
  one or failed with some output.
\<close>

theorem Build_errors_text:
  "(Errors (snd (Build exec b)) \<noteq> '''' \<longrightarrow> fst (Build exec b) \<noteq> None)
   \<and> (err (exec (build_command b)) \<noteq> None \<or> \<not> ps_success (exec (build_command b)) \<longrightarrow>
        Errors (snd (Build exec b)) = combined (exec (build_command b)))
   \<and> (err (exec (build_command b)) = None \<and> ps_success (exec (build_command b)) \<longrightarrow>
        Errors (snd (Build exec b)) = '''' \<and> fst (Build exec b) = None)
   \<and> (fst (Build exec b) \<noteq> None \<longleftrightarrow>
        err (exec (build_command b)) \<noteq> None
        \<or> (\<not> ps_success (exec (build_command b)) \<and> combined (exec (build_command b)) \<noteq> ''''))"
  by (auto simp: Build_fst Build_snd Errors_def Let_def)

theorem Build_errors_text_witness:
  "Errors (snd (Build toolchain_fails builder0)) = ''./main.go:3:1: syntax error''
   \<and> fst (Build toolchain_fails builder0) \<noteq> None
   \<and> Errors (snd (Build toolchain_ok (snd (Build toolchain_fails builder0)))) = ''''
   \<and> fst (Build toolchain_ok (snd (Build toolchain_fails builder0))) = None"
proof -
  have f: "err (toolchain_fails (build_command builder0)) \<noteq> None
           \<or> \<not> ps_success (toolchain_fails (build_command builder0))"
    by (simp add: toolchain_fails_def)
  have c: "combined (toolchain_fails (build_command builder0)) = ''./main.go:3:1: syntax error''"
    by (simp add: toolchain_fails_def)
  have s: "err (toolchain_ok (build_command (snd (Build toolchain_fails builder0)))) = None
           \<and> ps_success (toolchain_ok (build_command (snd (Build toolchain_fails builder0))))"
    by (simp add: toolchain_ok_def)
  show ?thesis
    using f c s Build_errors_text [of toolchain_fails builder0]
      Build_errors_text [of toolchain_ok "snd (Build toolchain_fails builder0)"]
    by simp
qed

section \<open>One build and one rebuild cycle\<close>

text \<open>The fields of the world after \<open>build\<close> and after one cycle.\<close>

lemma trace_build:
  "trace (build e w) =
     trace w @ [BuilderBuild]
       @ (if fst (Build (toolchain e) (builder w)) = None \<and> immediate w then [RunnerRun] else [])
       @ [TimeSleep 100]"
  by (simp add: build_def Let_def split: prod.splits option.splits)

lemma runner_build:
  "runner (build e w) =
     (if fst (Build (toolchain e) (builder w)) = None \<and> immediate w
      then snd (Run (spawn_ok e) (runner w)) else runner w)"
  by (simp add: build_def Let_def split: prod.splits option.splits)

lemma buildError_build: "buildError (build e w) = fst (Build (toolchain e) (builder w))"
  by (simp add: build_def Let_def split: prod.splits option.splits)

lemma builder_build: "builder (build e w) = snd (Build (toolchain e) (builder w))"
  by (simp add: build_def Let_def split: prod.splits option.splits)

lemma frame_build:
  "immediate (build e w) = immediate w \<and> environ (build e w) = environ w
   \<and> config (build e w) = config w"
  by (simp add: build_def Let_def split: prod.splits option.splits)

lemma logged_build:
  "logged (build e w) =
     logged w @
       (case fst (Build (toolchain e) (builder w)) of
          Some x \<Rightarrow> [LoggerPrintln ''ERROR! Build failed.'' [],
                     FmtPrintln (Errors (snd (Build (toolchain e) (builder w))))]
        | None \<Rightarrow> if buildError w \<noteq> None then [LoggerPrintln ''Build Successful'' []] else [])"
  by (simp add: build_def Let_def split: prod.splits option.splits)

lemma trace_rebuilder:
  "trace (rebuilder e w) =
     trace w @ [RunnerKill, BuilderBuild]
       @ (if fst (Build (toolchain e) (builder w)) = None \<and> immediate w then [RunnerRun] else [])
       @ [TimeSleep 100]"
  by (simp add: rebuilder_def Let_def trace_build)

lemma runner_rebuilder:
  "runner (rebuilder e w) =
     (if fst (Build (toolchain e) (builder w)) = None \<and> immediate w
      then snd (Run (spawn_ok e) (snd (Kill (kill_exited e) (runner w))))
      else snd (Kill (kill_exited e) (runner w)))"
  by (simp add: rebuilder_def Let_def runner_build)

lemma buildError_rebuilder: "buildError (rebuilder e w) = fst (Build (toolchain e) (builder w))"
  by (simp add: rebuilder_def Let_def buildError_build)

lemma builder_rebuilder: "builder (rebuilder e w) = snd (Build (toolchain e) (builder w))"
  by (simp add: rebuilder_def Let_def builder_build)

lemma frame_rebuilder:
  "immediate (rebuilder e w) = immediate w \<and> environ (rebuilder e w) = environ w
   \<and> config (rebuilder e w) = config w"
  by (simp add: rebuilder_def Let_def frame_build)

lemma logged_rebuilder:
  "logged (rebuilder e w) =
     logged w @ [FmtPrintln '''', LoggerPrintln ''Restarting web server...'' [], FmtPrintln '''']
       @ (case fst (Build (toolchain e) (builder w)) of
          Some x \<Rightarrow> [LoggerPrintln ''ERROR! Build failed.'' [],
                     FmtPrintln (Errors (snd (Build (toolchain e) (builder w))))]
        | None \<Rightarrow> if buildError w \<noteq> None then [LoggerPrintln ''Build Successful'' []] else [])"
  by (simp add: rebuilder_def Let_def logged_build split: option.splits)

lemma build_command_rebuilder:
  "build_command (builder (rebuilder e w)) = build_command (builder w)"
  by (simp add: builder_rebuilder build_command_Build)

lemma trace_rebuilder_p1:
  "trace (rebuilder_p1 e w) =
     trace w @ [RunnerKill, BuilderBuild]
       @ (if fst (Build (toolchain e) (builder w)) = None \<and> immediate w then [RunnerRun] else [])
       @ [TimeSleep 100]"
  by (simp add: rebuilder_p1_def Let_def trace_build)

lemma frame_rebuilder_p1:
  "immediate (rebuilder_p1 e w) = immediate w \<and> environ (rebuilder_p1 e w) = environ w
   \<and> config (rebuilder_p1 e w) = config w"
  by (simp add: rebuilder_p1_def Let_def frame_build)

lemma count_builds_rebuilder:
  "count_list (trace (rebuilder e w)) BuilderBuild = Suc (count_list (trace w) BuilderBuild)"
  by (simp add: trace_rebuilder)

lemma Kill_stopped: "fst (Kill exited r) = None \<Longrightarrow> pstate (snd (Kill exited r)) = Stopped"
  by (simp add: Kill_def split: if_splits)

lemma Kill_Stopped_id: "pstate r = Stopped \<Longrightarrow> Kill exited r = (None, r)"
  by (simp add: Kill_def)

text \<open>
  C8. Within one rebuild cycle the calls are, in this order, \<^verbatim>\<open>Runner.Kill\<close>, then
  \<^verbatim>\<open>Builder.Build\<close>, then \<^verbatim>\<open>Runner.Run\<close> if it is called at all (and the pause that
  ends \<open>build\<close>); each call has returned before the next is made. This holds for the
  rebuilder of both main files.
\<close>

theorem rebuild_cycle_order:
  "(trace (rebuilder e w) = trace w @ [RunnerKill, BuilderBuild, TimeSleep 100]
    \<or> trace (rebuilder e w) = trace w @ [RunnerKill, BuilderBuild, RunnerRun, TimeSleep 100])
   \<and> (trace (rebuilder_p1 e w) = trace w @ [RunnerKill, BuilderBuild, TimeSleep 100]
    \<or> trace (rebuilder_p1 e w) = trace w @ [RunnerKill, BuilderBuild, RunnerRun, TimeSleep 100])"
  by (simp add: trace_rebuilder trace_rebuilder_p1)

theorem rebuild_cycle_order_witness:
  "trace (rebuilder cycle_ok world0) = [RunnerKill, BuilderBuild, RunnerRun, TimeSleep 100]
   \<and> trace (rebuilder cycle_broken world0) = [RunnerKill, BuilderBuild, TimeSleep 100]"
proof -
  have a: "trace (rebuilder cycle_ok world0) \<noteq> trace world0 @ [RunnerKill, BuilderBuild, TimeSleep 100]"
    by (simp add: trace_rebuilder cycle_ok_def world0_def Build_ok_any)
  have b: "trace (rebuilder cycle_broken world0)
           \<noteq> trace world0 @ [RunnerKill, BuilderBuild, RunnerRun, TimeSleep 100]"
    by (simp add: trace_rebuilder cycle_broken_def world0_def Build_fails_any)
  have t: "trace world0 = []"
    by (simp add: world0_def)
  show ?thesis
    using a b t rebuild_cycle_order [of cycle_ok world0] rebuild_cycle_order [of cycle_broken world0]
    by simp
qed

section \<open>The watcher loop and the startup\<close>

lemma frame_watcher_loop:
  "immediate (watcher_loop bin events w) = immediate w
   \<and> environ (watcher_loop bin events w) = environ w
   \<and> config (watcher_loop bin events w) = config w"
  by (induction bin events w rule: watcher_loop.induct) (simp_all add: frame_rebuilder)

lemma frame_fold_rebuilder_p1:
  "immediate (fold rebuilder_p1 es w) = immediate w
   \<and> environ (fold rebuilder_p1 es w) = environ w
   \<and> config (fold rebuilder_p1 es w) = config w"
  by (induction es arbitrary: w) (simp_all add: frame_rebuilder_p1)

lemma cycles_watcher_loop:
  "\<exists>cs. trace (watcher_loop bin events w) = trace w @ concat cs
        \<and> length cs = length (filter (\<lambda>p. triggers bin (fst p)) events)
        \<and> set cs \<subseteq> cycle_calls"
proof (induction bin events w rule: watcher_loop.induct)
  case (1 bin w)
  show ?case by simp
next
  case (2 bin event e rest w)
  show ?case
  proof (cases "triggers bin event")
    case False
    with 2 show ?thesis by simp
  next
    case True
    with 2 obtain cs where cs: "trace (watcher_loop bin rest (rebuilder e w)) = trace (rebuilder e w) @ concat cs"
      "length cs = length (filter (\<lambda>p. triggers bin (fst p)) rest)" "set cs \<subseteq> cycle_calls"
      by auto
    obtain c where c: "trace (rebuilder e w) = trace w @ c" "c \<in> cycle_calls"
      by (auto simp: trace_rebuilder cycle_calls_def)
    have "trace (watcher_loop bin ((event, e) # rest) w) = trace w @ concat (c # cs)"
      using True cs(1) c(1) by simp
    moreover have "length (c # cs) = length (filter (\<lambda>p. triggers bin (fst p)) ((event, e) # rest))"
      using True cs(2) by simp
    moreover have "set (c # cs) \<subseteq> cycle_calls"
      using cs(3) c(2) by simp
    ultimately show ?thesis by blast
  qed
qed

lemma trace_watcher_loop_prefix:
  "\<exists>rest. trace (watcher_loop bin events w) = trace w @ rest"
  using cycles_watcher_loop [of bin events w] by blast

lemma trace_fold_rebuilder_p1_prefix:
  "\<exists>rest. trace (fold rebuilder_p1 es w) = trace w @ rest"
proof (induction es arbitrary: w)
  case Nil
  show ?case by simp
next
  case (Cons e es)
  obtain r1 where "trace (rebuilder_p1 e w) = trace w @ r1"
    by (simp add: trace_rebuilder_p1)
  moreover obtain r2 where "trace (fold rebuilder_p1 es (rebuilder_p1 e w)) = trace (rebuilder_p1 e w) @ r2"
    using Cons.IH by blast
  ultimately show ?case by simp
qed

lemma failing_cycles:
  assumes "\<forall>p \<in> set events. fst (Build (toolchain (snd p)) (builder w)) \<noteq> None"
  shows "trace (watcher_loop bin events w) =
           trace w @ concat (replicate (length (filter (\<lambda>p. triggers bin (fst p)) events))
                               [RunnerKill, BuilderBuild, TimeSleep 100])
         \<and> (pstate (runner w) = Stopped \<longrightarrow> runner (watcher_loop bin events w) = runner w)"
  using assms
proof (induction bin events w rule: watcher_loop.induct)
  case (1 bin w)
  show ?case by simp
next
  case (2 bin event e rest w)
  have fail: "fst (Build (toolchain e) (builder w)) \<noteq> None"
    using "2.prems" by simp
  show ?case
  proof (cases "triggers bin event")
    case False
    with 2 show ?thesis by simp
  next
    case True
    have "\<forall>p \<in> set rest. fst (Build (toolchain (snd p)) (builder (rebuilder e w))) \<noteq> None"
      using "2.prems" Build_fst_command [OF build_command_rebuilder] by simp
    then have ih: "trace (watcher_loop bin rest (rebuilder e w)) =
           trace (rebuilder e w) @ concat (replicate (length (filter (\<lambda>p. triggers bin (fst p)) rest))
                               [RunnerKill, BuilderBuild, TimeSleep 100])
         \<and> (pstate (runner (rebuilder e w)) = Stopped \<longrightarrow>
              runner (watcher_loop bin rest (rebuilder e w)) = runner (rebuilder e w))"
      using "2.IH" True by simp
    have tr: "trace (rebuilder e w) = trace w @ [RunnerKill, BuilderBuild, TimeSleep 100]"
      using fail by (simp add: trace_rebuilder)
    have rn: "pstate (runner w) = Stopped \<longrightarrow> runner (rebuilder e w) = runner w"
      using fail by (auto simp: runner_rebuilder Kill_Stopped_id)
    show ?thesis
      using True ih tr rn by auto
  qed
qed

text \<open>Every trigger is paid with a build: the count of builds done and owed.\<close>

lemma cycle_step_builds:
  "count_list (trace (snd (cycle_step e p w))) BuilderBuild
     + sum_list (map (\<lambda>c. owes (fst c)) (advance e (fst (cycle_step e p w))))
   = count_list (trace w) BuilderBuild + owes p"
  by (cases p) (auto simp: advance_def Let_def split: prod.splits option.splits)

lemma sum_owes_nth:
  assumes "i < length hs"
  shows "sum_list (map (\<lambda>c. owes (fst c)) hs) =
           sum_list (map (\<lambda>c. owes (fst c)) (take i hs)) + owes (fst (hs ! i))
           + sum_list (map (\<lambda>c. owes (fst c)) (drop (Suc i) hs))"
proof -
  have "hs = take i hs @ hs ! i # drop (Suc i) hs"
    using assms by (rule id_take_nth_drop)
  then have "sum_list (map (\<lambda>c. owes (fst c)) hs) =
      sum_list (map (\<lambda>c. owes (fst c)) (take i hs @ hs ! i # drop (Suc i) hs))"
    by simp
  then show ?thesis
    by simp
qed

lemma notified_Cons: "notified (a # sched) = notified [a] @ notified sched"
  by (cases a) simp_all

lemma hits_Cons: "hits (a # sched) = hits [a] + hits sched"
  by (cases a) simp_all

lemma sys_step_builds:
  assumes "sys_step bin a s = Some s'"
  shows "count_list (trace (shared s')) BuilderBuild + owed bin s' =
           count_list (trace (shared s)) BuilderBuild + owed bin s
           + length (filter (\<lambda>p. triggers bin (fst p)) (notified [a])) + hits [a]"
proof (cases a)
  case (Notify event e)
  with assms show ?thesis
    by (auto simp: owed_def)
next
  case Receive
  with assms show ?thesis
    by (auto simp: owed_def split: option.splits list.splits if_splits)
next
  case WatcherStep
  with assms obtain p e where w: "watcher s = Some (p, e)"
    and s': "s' = s\<lparr>watcher := map_option (\<lambda>q. (q, e)) (fst (cycle_step e p (shared s))),
                   shared := snd (cycle_step e p (shared s))\<rparr>"
    by (auto split: option.splits)
  show ?thesis
    using cycle_step_builds [of e p "shared s"] WatcherStep
    by (auto simp: s' w owed_def advance_def split: option.splits)
next
  case (Hit e)
  with assms show ?thesis
    by (auto simp: owed_def restart_hit_def)
next
  case (HandlerStep i)
  with assms obtain p e where i: "i < length (handlers s)" and h: "handlers s ! i = (p, e)"
    and s': "s' = s\<lparr>handlers := take i (handlers s)
                                       @ advance e (fst (cycle_step e p (shared s)))
                                       @ drop (Suc i) (handlers s),
                         shared := snd (cycle_step e p (shared s))\<rparr>"
    by (auto split: if_splits prod.splits)
  show ?thesis
    using cycle_step_builds [of e p "shared s"] HandlerStep sum_owes_nth [OF i]
    by (simp add: s' h owed_def)
qed

lemma sys_run_builds:
  "sys_run bin sched s = Some s' \<Longrightarrow>
     count_list (trace (shared s')) BuilderBuild + owed bin s' =
       count_list (trace (shared s)) BuilderBuild + owed bin s
       + length (filter (\<lambda>p. triggers bin (fst p)) (notified sched)) + hits sched"
proof (induction sched arbitrary: s)
  case Nil
  then show ?case by simp
next
  case (Cons a sched)
  from Cons.prems obtain s1 where a: "sys_step bin a s = Some s1"
    and r: "sys_run bin sched s1 = Some s'"
    by (auto split: option.splits)
  show ?case
    using Cons.IH [OF r] sys_step_builds [OF a]
    by (simp add: notified_Cons [of a sched] hits_Cons [of a sched])
qed

lemma owed_idle: "idle s \<Longrightarrow> owed bin s = 0"
  by (simp add: idle_def owed_def)

lemma sys_run_quiescent_builds:
  assumes "sys_run bin sched (idle_state w) = Some s" and "idle s"
  shows "count_list (trace (shared s)) BuilderBuild =
           count_list (trace w) BuilderBuild
           + length (filter (\<lambda>p. triggers bin (fst p)) (notified sched)) + hits sched"
proof -
  have "owed bin (idle_state w) = 0"
    by (simp add: owed_def idle_state_def)
  then show ?thesis
    using sys_run_builds [OF assms(1)] owed_idle [OF assms(2), of bin]
    by (simp add: idle_state_def)
qed

text \<open>A cycle that runs alone is \<open>rebuilder\<close>; without restart hits the steps follow the loop.\<close>

lemma finish_AtSleep: "finish e AtSleep w = w\<lparr>trace := trace w @ [TimeSleep 100]\<rparr>"
  by (simp add: finish.simps [of e AtSleep])

lemma finish_AtRun:
  "finish e AtRun w =
     w\<lparr>runner := snd (Run (spawn_ok e) (runner w)), trace := trace w @ [RunnerRun, TimeSleep 100]\<rparr>"
  by (simp add: finish.simps [of e AtRun] finish_AtSleep)

lemma finish_InBuild: "finish e InBuild w = build e w"
  by (simp add: finish.simps [of e InBuild] finish_AtSleep finish_AtRun build_def Let_def
      split: prod.splits option.splits)

lemma finish_AtBuild: "finish e AtBuild w = build e w"
  by (simp add: finish.simps [of e AtBuild] finish_InBuild)

lemma finish_AtKill: "finish e AtKill w = rebuilder e w"
  by (simp add: finish.simps [of e AtKill] finish_AtBuild rebuilder_def Let_def)

lemma sys_step_settles:
  assumes "sys_step bin a s = Some s'" and "handlers s = []" and "hits [a] = 0"
  shows "handlers s' = []
         \<and> watcher_loop bin (queue s' @ rest) (settled s') =
             watcher_loop bin (queue s @ notified [a] @ rest) (settled s)"
proof (cases a)
  case (Notify event e)
  with assms show ?thesis
    by (auto simp: settled_def split: option.splits)
next
  case Receive
  with assms show ?thesis
    by (auto simp: settled_def finish_AtKill split: option.splits list.splits if_splits)
next
  case WatcherStep
  with assms obtain p e where w: "watcher s = Some (p, e)"
    and s': "s' = s\<lparr>watcher := map_option (\<lambda>q. (q, e)) (fst (cycle_step e p (shared s))),
                   shared := snd (cycle_step e p (shared s))\<rparr>"
    by (auto split: option.splits)
  have "settled s' = finish e p (shared s)"
    by (simp add: s' settled_def finish.simps [of e p] split: option.splits)
  then show ?thesis
    using assms(2) WatcherStep by (simp add: s' w settled_def)
next
  case (Hit e)
  with assms show ?thesis by simp
next
  case (HandlerStep i)
  with assms show ?thesis by simp
qed

lemma sys_run_settles:
  "sys_run bin sched s = Some s' \<Longrightarrow> handlers s = [] \<Longrightarrow> hits sched = 0 \<Longrightarrow>
     handlers s' = []
     \<and> watcher_loop bin (queue s') (settled s') =
         watcher_loop bin (queue s @ notified sched) (settled s)"
proof (induction sched arbitrary: s)
  case Nil
  then show ?case by simp
next
  case (Cons a sched)
  from Cons.prems(1) obtain s1 where a: "sys_step bin a s = Some s1"
    and r: "sys_run bin sched s1 = Some s'"
    by (auto split: option.splits)
  have h: "hits [a] = 0" "hits sched = 0"
    using Cons.prems(3) hits_Cons [of a sched] by simp_all
  note st = sys_step_settles [OF a Cons.prems(2) h(1), of "notified sched"]
  have "handlers s' = []
     \<and> watcher_loop bin (queue s') (settled s') =
         watcher_loop bin (queue s1 @ notified sched) (settled s1)"
    using Cons.IH [OF r _ h(2)] st by simp
  then show ?case
    using st by (simp add: notified_Cons [of a sched])
qed

lemma sys_run_no_hits:
  assumes "sys_run bin sched (idle_state w) = Some s" and "hits sched = 0"
  shows "cycles_in_flight s \<le> 1 \<and> builds_in_progress s \<le> 1
         \<and> (idle s \<longrightarrow> shared s = watcher_loop bin (notified sched) w)"
proof -
  have h: "handlers s = []"
    and l: "watcher_loop bin (queue s) (settled s) =
              watcher_loop bin (queue (idle_state w) @ notified sched) (settled (idle_state w))"
    using sys_run_settles [OF assms(1) _ assms(2)] by (simp_all add: idle_state_def)
  have "cycles_in_flight s \<le> 1" "builds_in_progress s \<le> 1"
    using h by (simp_all add: cycles_in_flight_def builds_in_progress_def split: option.splits)
  moreover have "idle s \<longrightarrow> shared s = watcher_loop bin (notified sched) w"
    using l by (auto simp: idle_def idle_state_def settled_def)
  ultimately show ?thesis by blast
qed

lemma cycle_step_InBuild_next:
  "fst (cycle_step e InBuild w) =
     (if fst (Build (toolchain e) (builder w)) = None \<and> immediate w then Some AtRun
      else Some AtSleep)"
  by (simp add: Let_def split: prod.splits option.splits)

lemma sys_run_Receive:
  assumes "watcher s = None" and "queue s = (event, e) # rest"
  shows "sys_run bin (Receive # sched) s =
           sys_run bin sched
             (s\<lparr>queue := rest, watcher := (if triggers bin event then Some (AtKill, e) else None)\<rparr>)"
  using assms by simp

lemma watcher_cycle_ok:
  assumes "watcher s = Some (AtKill, cycle_ok)" and "immediate (shared s)"
  shows "sys_run bin (WatcherStep # WatcherStep # WatcherStep # WatcherStep # WatcherStep # sched) s =
           sys_run bin sched (s\<lparr>watcher := None, shared := rebuilder cycle_ok (shared s)\<rparr>)"
proof -
  let ?w1 = "snd (cycle_step cycle_ok AtKill (shared s))"
  let ?w3 = "snd (cycle_step cycle_ok InBuild ?w1)"
  let ?w4 = "snd (cycle_step cycle_ok AtRun ?w3)"
  let ?w5 = "snd (cycle_step cycle_ok AtSleep ?w4)"
  have ok: "fst (Build (toolchain cycle_ok) (builder ?w1)) = None"
    by (simp add: cycle_ok_def Build_ok_any)
  have im: "immediate ?w1"
    using assms(2) by simp
  have n3: "fst (cycle_step cycle_ok InBuild ?w1) = Some AtRun"
    using ok im by (simp only: cycle_step_InBuild_next if_True simp_thms)
  have "rebuilder cycle_ok (shared s) = finish cycle_ok AtKill (shared s)"
    by (simp add: finish_AtKill)
  also have "\<dots> = finish cycle_ok InBuild ?w1"
    by (simp add: finish.simps [of cycle_ok AtKill] finish.simps [of cycle_ok AtBuild])
  also have "\<dots> = finish cycle_ok AtRun ?w3"
    using n3 by (simp add: finish.simps [of cycle_ok InBuild])
  also have "\<dots> = ?w5"
    by (simp add: finish.simps [of cycle_ok AtRun] finish.simps [of cycle_ok AtSleep])
  finally have r: "rebuilder cycle_ok (shared s) = ?w5" .
  show ?thesis
    using n3 assms(1) by (simp add: r)
qed

lemma overlap_run:
  assumes "triggers bin event"
  shows "sys_run bin [Notify event e, Receive, WatcherStep, WatcherStep,
                      Hit e', HandlerStep 0, HandlerStep 0] (idle_state w) =
           Some \<lparr>queue = [], watcher = Some (InBuild, e), handlers = [(InBuild, e')],
                 shared = snd (cycle_step e' AtKill (snd (cycle_step e AtKill w)))\<rparr>"
  using assms by (simp add: idle_state_def advance_def restart_hit_def Let_def)

lemma overlap_counts:
  "cycles_in_flight
     \<lparr>queue = [], watcher = Some (InBuild, e), handlers = [(InBuild, e')], shared = w\<rparr> = 2
   \<and> builds_in_progress
     \<lparr>queue = [], watcher = Some (InBuild, e), handlers = [(InBuild, e')], shared = w\<rparr> = 2"
  by (simp add: cycles_in_flight_def builds_in_progress_def)

lemma triggers_write_main: "triggers ''.sparkplug-bin'' write_main"
  by (simp add: triggers_def HasSuffix_def write_main_def Write_def)

lemma not_triggers_artifact_linux: "\<not> triggers ''.sparkplug-bin'' artifact_linux"
  by (simp add: triggers_def HasSuffix_def artifact_linux_def)

lemma createWatcher_Inr:
  "createWatcher we w = Inr w' \<Longrightarrow> w' = w\<lparr>trace := trace w @ [FilepathAbs, NewWatcher, WatcherAdd]\<rparr>"
  by (auto simp: createWatcher_def Let_def split: option.splits)

lemma mainAction_init_Inr:
  assumes "mainAction_init GOOS c env0 se = Inr w"
  shows "trace w = [Setenv ''PORT'' (Itoa (flag_appPort c)), Getwd, ProxyRun]
         \<and> immediate w = (\<not> flag_lazy c)
         \<and> environ w ''PORT'' = Some (Itoa (flag_appPort c))
         \<and> ProxyTo (config w) = ''http://localhost:'' @ Itoa (flag_appPort c)
         \<and> runner w = NewRunner
         \<and> builder w = NewBuilder GOOS (flag_path c) (flag_bin c) (flag_godep c)"
  using assms
  by (auto simp: mainAction_init_def Let_def split: sum.splits option.splits)

lemma mainAction_startup_Inr:
  assumes "mainAction_startup GOOS c env0 se = Inr w"
  shows "trace w = [Setenv ''PORT'' (Itoa (flag_appPort c)), Getwd, ProxyRun, BuilderBuild]
           @ (if fst (Build (toolchain (first_build se))
                        (NewBuilder GOOS (flag_path c) (flag_bin c) (flag_godep c))) = None
                 \<and> \<not> flag_lazy c
              then [RunnerRun] else [])
           @ [TimeSleep 100, FilepathAbs, NewWatcher, WatcherAdd]
         \<and> immediate w = (\<not> flag_lazy c)
         \<and> environ w ''PORT'' = Some (Itoa (flag_appPort c))
         \<and> ProxyTo (config w) = ''http://localhost:'' @ Itoa (flag_appPort c)"
proof -
  from assms obtain w0 where i: "mainAction_init GOOS c env0 se = Inr w0"
    and cw: "createWatcher (watch se) (build (first_build se) w0) = Inr w"
    by (auto simp: mainAction_startup_def split: sum.splits)
  note f = mainAction_init_Inr [OF i]
  have w: "w = (build (first_build se) w0)\<lparr>trace := trace (build (first_build se) w0)
                  @ [FilepathAbs, NewWatcher, WatcherAdd]\<rparr>"
    using createWatcher_Inr [OF cw] .
  show ?thesis
    by (subst (1 2 3 4) w) (simp add: trace_build frame_build f)
qed

lemma mainAction_p1_Inr:
  assumes "mainAction_p1 GOOS c env0 se = Inr w"
  shows "trace w = [Setenv ''PORT'' (Itoa (flag_appPort c)), Getwd, ProxyRun, SignalNotify,
                    BuilderBuild]
           @ (if fst (Build (toolchain (first_build se))
                        (NewBuilder GOOS (flag_path c) (flag_bin c) (flag_godep c))) = None
                 \<and> \<not> flag_lazy c
              then [RunnerRun] else [])
           @ [TimeSleep 100]
         \<and> immediate w = (\<not> flag_lazy c)
         \<and> environ w ''PORT'' = Some (Itoa (flag_appPort c))
         \<and> ProxyTo (config w) = ''http://localhost:'' @ Itoa (flag_appPort c)"
  using assms
  by (auto simp: mainAction_p1_def Let_def shutdown_def trace_build frame_build
           split: sum.splits option.splits)

lemma startup_ok_normal:
  "\<exists>w. mainAction_startup ''linux'' default_flags Map.empty startup_ok = Inr w"
  by (simp add: mainAction_startup_def mainAction_init_def Let_def startup_ok_def
      createWatcher_def)

lemma p1_ok_normal:
  "\<exists>w. mainAction_p1 ''linux'' default_flags Map.empty startup_ok = Inr w"
  by (simp add: mainAction_p1_def Let_def startup_ok_def)

lemma default_flags_simps:
  "flag_bin default_flags = ''.sparkplug-bin''" "flag_lazy default_flags = False"
  "flag_appPort default_flags = 3001" "flag_path default_flags = ''.''"
  "flag_godep default_flags = False"
  by (simp_all add: default_flags_def)

lemma Itoa_3001: "Itoa 3001 = ''3001''"
  by code_simp

section \<open>Startup mode and failed builds\<close>



text \<open>
  C4, as stated, fails where \<^verbatim>\<open>Runner.Kill\<close> fails: the rebuilder discards the error that
  \<^verbatim>\<open>runner.Kill()\<close> returns. When the child's exit is not confirmed and the build fails,
  \<^verbatim>\<open>Runner.Run\<close> is not called, but the process that could not be stopped is still
  running after the cycle.
\<close>

theorem failed_build_beside_failed_kill:
  "fst (Build (toolchain cycle_stuck) (builder world_running)) \<noteq> None
   \<and> fst (Kill (kill_exited cycle_stuck) (runner world_running)) \<noteq> None
   \<and> RunnerRun \<notin> set (trace (rebuilder cycle_stuck world_running))
   \<and> \<not> pstate (runner (rebuilder cycle_stuck world_running)) = Stopped"
  by (simp add: cycle_stuck_def Build_fails_any runner_rebuilder trace_rebuilder Kill_def
      world_running_def world0_def)

text \<open>
  C4, amended. When \<open>Build\<close> fails in a rebuild cycle, whatever the startup mode: the error
  is stored in \<open>buildError\<close> and the error text is printed; \<^verbatim>\<open>Runner.Run\<close> is not called;
  the runner is left exactly as \<^verbatim>\<open>Runner.Kill\<close> left it, so the process is stopped
  whenever \<^verbatim>\<open>Kill\<close> reported no error. As long as the builds of the following cycles fail
  too, no cycle calls \<^verbatim>\<open>Runner.Run\<close> and a stopped process stays stopped.
\<close>
theorem failed_build_no_start:
  assumes "fst (Build (toolchain e) (builder w)) = Some x"
  shows "buildError (rebuilder e w) = Some x
         \<and> logged (rebuilder e w) =
             logged w @ [FmtPrintln '''', LoggerPrintln ''Restarting web server...'' [],
                         FmtPrintln '''', LoggerPrintln ''ERROR! Build failed.'' [],
                         FmtPrintln (Errors (builder (rebuilder e w)))]
         \<and> trace (rebuilder e w) = trace w @ [RunnerKill, BuilderBuild, TimeSleep 100]
         \<and> runner (rebuilder e w) = snd (Kill (kill_exited e) (runner w))
         \<and> (fst (Kill (kill_exited e) (runner w)) = None \<longrightarrow>
              pstate (runner (rebuilder e w)) = Stopped)
         \<and> ((\<forall>p \<in> set events. fst (Build (toolchain (snd p)) (builder w)) \<noteq> None) \<longrightarrow>
              trace (watcher_loop bin events (rebuilder e w)) =
                trace (rebuilder e w)
                  @ concat (replicate (length (filter (\<lambda>p. triggers bin (fst p)) events))
                              [RunnerKill, BuilderBuild, TimeSleep 100])
              \<and> (pstate (runner (rebuilder e w)) = Stopped \<longrightarrow>
                   pstate (runner (watcher_loop bin events (rebuilder e w))) = Stopped))"
proof -
  have a: "buildError (rebuilder e w) = Some x"
    using assms by (simp add: buildError_rebuilder)
  have b: "logged (rebuilder e w) =
             logged w @ [FmtPrintln '''', LoggerPrintln ''Restarting web server...'' [],
                         FmtPrintln '''', LoggerPrintln ''ERROR! Build failed.'' [],
                         FmtPrintln (Errors (builder (rebuilder e w)))]"
    using assms by (simp add: logged_rebuilder builder_rebuilder)
  have c: "trace (rebuilder e w) = trace w @ [RunnerKill, BuilderBuild, TimeSleep 100]"
    using assms by (simp add: trace_rebuilder)
  have d: "runner (rebuilder e w) = snd (Kill (kill_exited e) (runner w))"
    using assms by (simp add: runner_rebuilder)
  have e: "fst (Kill (kill_exited e) (runner w)) = None \<longrightarrow>
              pstate (runner (rebuilder e w)) = Stopped"
    using d by (simp add: Kill_stopped)
  have f: "(\<forall>p \<in> set events. fst (Build (toolchain (snd p)) (builder w)) \<noteq> None) \<longrightarrow>
              trace (watcher_loop bin events (rebuilder e w)) =
                trace (rebuilder e w)
                  @ concat (replicate (length (filter (\<lambda>p. triggers bin (fst p)) events))
                              [RunnerKill, BuilderBuild, TimeSleep 100])
              \<and> (pstate (runner (rebuilder e w)) = Stopped \<longrightarrow>
                   pstate (runner (watcher_loop bin events (rebuilder e w))) = Stopped)"
  proof
    assume all: "\<forall>p \<in> set events. fst (Build (toolchain (snd p)) (builder w)) \<noteq> None"
    have "\<forall>p \<in> set events. fst (Build (toolchain (snd p)) (builder (rebuilder e w))) \<noteq> None"
      using all Build_fst_command [OF build_command_rebuilder] by simp
    from failing_cycles [OF this]
    show "trace (watcher_loop bin events (rebuilder e w)) =
                trace (rebuilder e w)
                  @ concat (replicate (length (filter (\<lambda>p. triggers bin (fst p)) events))
                              [RunnerKill, BuilderBuild, TimeSleep 100])
              \<and> (pstate (runner (rebuilder e w)) = Stopped \<longrightarrow>
                   pstate (runner (watcher_loop bin events (rebuilder e w))) = Stopped)"
      by auto
  qed
  from a b c d e f show ?thesis by blast
qed

theorem failed_build_no_start_witness:
  "buildError (rebuilder cycle_broken world_running) = Some (Errorf ''./main.go:3:1: syntax error'')
   \<and> trace (rebuilder cycle_broken world_running) = [RunnerKill, BuilderBuild, TimeSleep 100]
   \<and> pstate (runner (rebuilder cycle_broken world_running)) = Stopped
   \<and> trace (watcher_loop ''.sparkplug-bin'' [(write_main, cycle_broken)]
              (rebuilder cycle_broken world_running)) =
       [RunnerKill, BuilderBuild, TimeSleep 100, RunnerKill, BuilderBuild, TimeSleep 100]
   \<and> pstate (runner (watcher_loop ''.sparkplug-bin'' [(write_main, cycle_broken)]
                      (rebuilder cycle_broken world_running))) = Stopped"
proof -
  have f: "fst (Build (toolchain cycle_broken) (builder world_running)) =
             Some (Errorf ''./main.go:3:1: syntax error'')"
    by (simp add: cycle_broken_def Build_fails_any)
  have all: "\<forall>p \<in> set [(write_main, cycle_broken)].
               fst (Build (toolchain (snd p)) (builder world_running)) \<noteq> None"
    by (simp add: cycle_broken_def Build_fails_any)
  have k: "Kill (kill_exited cycle_broken) (runner world_running) = (None, \<lparr>pstate = Stopped\<rparr>)"
    by (simp add: Kill_def cycle_broken_def world_running_def)
  have t: "trace world_running = []"
    by (simp add: world_running_def world0_def)
  show ?thesis
    using failed_build_no_start [OF f, of "[(write_main, cycle_broken)]" "''.sparkplug-bin''"]
      all k t
    by (simp add: triggers_write_main)
qed

section \<open>Notifications and cycles\<close>

lemma mixed_run:
  "\<exists>s. sys_run ''.sparkplug-bin''
          [Notify write_main cycle_ok, Notify artifact_linux cycle_ok, Hit cycle_broken, Receive,
           WatcherStep, HandlerStep 0, WatcherStep, HandlerStep 0, WatcherStep, HandlerStep 0,
           WatcherStep, HandlerStep 0, WatcherStep, Receive]
          (idle_state world0) = Some s \<and> idle s"
  by (simp add: idle_state_def idle_def advance_def restart_hit_def triggers_write_main
      not_triggers_artifact_linux Let_def
      cycle_ok_def cycle_broken_def Build_def toolchain_ok_def toolchain_fails_def world0_def
      build_command_def builder0_def NewBuilder_def)

text \<open>
  C1, as stated, fails twice. Nothing is coalesced: a notification is received and its
  cycle is in flight, two more notifications for a source file are produced meanwhile, and
  when the cycle has returned the loop runs one cycle for each of them, two more cycles
  and not at most one. And nothing keeps the cycles of different goroutines apart: while
  the cycle of a notification is inside \<^verbatim>\<open>builder.Build()\<close>, a restart hit starts a cycle
  that kills the runner and enters \<^verbatim>\<open>builder.Build()\<close> as well, so two builds are in
  progress at once.
\<close>

theorem triggers_neither_coalesced_nor_serialised:
  "sys_run ''.sparkplug-bin''
       [Notify write_main cycle_ok, Receive, Notify write_main cycle_ok, Notify write_main cycle_ok]
       (idle_state world0)
     = Some \<lparr>queue = [(write_main, cycle_ok), (write_main, cycle_ok)],
             watcher = Some (AtKill, cycle_ok), handlers = [], shared = world0\<rparr>
   \<and> sys_run ''.sparkplug-bin''
       [WatcherStep, WatcherStep, WatcherStep, WatcherStep, WatcherStep,
        Receive, WatcherStep, WatcherStep, WatcherStep, WatcherStep, WatcherStep,
        Receive, WatcherStep, WatcherStep, WatcherStep, WatcherStep, WatcherStep]
       \<lparr>queue = [(write_main, cycle_ok), (write_main, cycle_ok)],
        watcher = Some (AtKill, cycle_ok), handlers = [], shared = world0\<rparr>
     = Some (idle_state (rebuilder cycle_ok (rebuilder cycle_ok (rebuilder cycle_ok world0))))
   \<and> \<not> count_list (trace (rebuilder cycle_ok (rebuilder cycle_ok (rebuilder cycle_ok world0))))
          BuilderBuild
        \<le> count_list (trace (rebuilder cycle_ok world0)) BuilderBuild + 1
   \<and> sys_run ''.sparkplug-bin''
       [Notify write_main cycle_ok, Receive, WatcherStep, WatcherStep,
        Hit cycle_ok, HandlerStep 0, HandlerStep 0]
       (idle_state world0)
     = Some \<lparr>queue = [], watcher = Some (InBuild, cycle_ok), handlers = [(InBuild, cycle_ok)],
             shared = snd (cycle_step cycle_ok AtKill (snd (cycle_step cycle_ok AtKill world0)))\<rparr>
   \<and> \<not> builds_in_progress
          \<lparr>queue = [], watcher = Some (InBuild, cycle_ok), handlers = [(InBuild, cycle_ok)],
           shared = snd (cycle_step cycle_ok AtKill (snd (cycle_step cycle_ok AtKill world0)))\<rparr>
        \<le> 1"
proof -
  have i0: "immediate world0"
    by (simp add: world0_def)
  have a: "sys_run ''.sparkplug-bin''
       [Notify write_main cycle_ok, Receive, Notify write_main cycle_ok, Notify write_main cycle_ok]
       (idle_state world0)
     = Some \<lparr>queue = [(write_main, cycle_ok), (write_main, cycle_ok)],
             watcher = Some (AtKill, cycle_ok), handlers = [], shared = world0\<rparr>"
    by (simp add: idle_state_def triggers_write_main)
  have b: "sys_run ''.sparkplug-bin''
       [WatcherStep, WatcherStep, WatcherStep, WatcherStep, WatcherStep,
        Receive, WatcherStep, WatcherStep, WatcherStep, WatcherStep, WatcherStep,
        Receive, WatcherStep, WatcherStep, WatcherStep, WatcherStep, WatcherStep]
       \<lparr>queue = [(write_main, cycle_ok), (write_main, cycle_ok)],
        watcher = Some (AtKill, cycle_ok), handlers = [], shared = world0\<rparr>
     = Some (idle_state (rebuilder cycle_ok (rebuilder cycle_ok (rebuilder cycle_ok world0))))"
    by (simp add: watcher_cycle_ok sys_run_Receive i0 frame_rebuilder triggers_write_main
        idle_state_def del: sys_run.simps(2))
  have c: "\<not> count_list (trace (rebuilder cycle_ok (rebuilder cycle_ok (rebuilder cycle_ok world0))))
          BuilderBuild
        \<le> count_list (trace (rebuilder cycle_ok world0)) BuilderBuild + 1"
    by (simp add: count_builds_rebuilder)
  have d: "sys_run ''.sparkplug-bin''
       [Notify write_main cycle_ok, Receive, WatcherStep, WatcherStep,
        Hit cycle_ok, HandlerStep 0, HandlerStep 0]
       (idle_state world0)
     = Some \<lparr>queue = [], watcher = Some (InBuild, cycle_ok), handlers = [(InBuild, cycle_ok)],
             shared = snd (cycle_step cycle_ok AtKill (snd (cycle_step cycle_ok AtKill world0)))\<rparr>"
    using overlap_run [OF triggers_write_main] .
  have e: "\<not> builds_in_progress
          \<lparr>queue = [], watcher = Some (InBuild, cycle_ok), handlers = [(InBuild, cycle_ok)],
           shared = snd (cycle_step cycle_ok AtKill (snd (cycle_step cycle_ok AtKill world0)))\<rparr>
        \<le> 1"
    by (simp add: builds_in_progress_def)
  from a b c d e show ?thesis
    by blast
qed

text \<open>
  C1, amended. For every interleaving of change notifications and restart hits, every
  notification that passes the filter and every restart hit runs one cycle of its own:
  once everything is handled there have been as many builds as such notifications and
  hits. As long as there is no restart hit, at most one cycle and at most one
  \<^verbatim>\<open>Builder.Build\<close> call is in progress at any moment, and the world left behind is the
  one that the watcher loop leaves on the list of notifications, whenever they were
  produced. With a restart hit beside a cycle of the watcher, two cycles and two
  \<^verbatim>\<open>Builder.Build\<close> calls are in progress at once. The steps of one cycle, made with no
  other call between them, are \<open>rebuilder\<close>.
\<close>

theorem every_trigger_runs_its_own_cycle:
  "(sys_run bin sched (idle_state w) = Some s \<and> idle s \<longrightarrow>
      count_list (trace (shared s)) BuilderBuild =
        count_list (trace w) BuilderBuild
        + length (filter (\<lambda>p. triggers bin (fst p)) (notified sched)) + hits sched)
   \<and> (sys_run bin sched (idle_state w) = Some s \<and> hits sched = 0 \<longrightarrow>
      cycles_in_flight s \<le> 1 \<and> builds_in_progress s \<le> 1
      \<and> (idle s \<longrightarrow> shared s = watcher_loop bin (notified sched) w))
   \<and> (triggers bin event \<longrightarrow>
      (\<exists>s'. sys_run bin [Notify event e, Receive, WatcherStep, WatcherStep,
                         Hit e', HandlerStep 0, HandlerStep 0] (idle_state w) = Some s'
            \<and> cycles_in_flight s' = 2 \<and> builds_in_progress s' = 2))
   \<and> finish e AtKill w = rebuilder e w"
proof -
  have a: "sys_run bin sched (idle_state w) = Some s \<and> idle s \<longrightarrow>
      count_list (trace (shared s)) BuilderBuild =
        count_list (trace w) BuilderBuild
        + length (filter (\<lambda>p. triggers bin (fst p)) (notified sched)) + hits sched"
    using sys_run_quiescent_builds by blast
  have b: "sys_run bin sched (idle_state w) = Some s \<and> hits sched = 0 \<longrightarrow>
      cycles_in_flight s \<le> 1 \<and> builds_in_progress s \<le> 1
      \<and> (idle s \<longrightarrow> shared s = watcher_loop bin (notified sched) w)"
    using sys_run_no_hits by blast
  have c: "triggers bin event \<longrightarrow>
      (\<exists>s'. sys_run bin [Notify event e, Receive, WatcherStep, WatcherStep,
                         Hit e', HandlerStep 0, HandlerStep 0] (idle_state w) = Some s'
            \<and> cycles_in_flight s' = 2 \<and> builds_in_progress s' = 2)"
    using overlap_run [of bin event e e' w] overlap_counts by blast
  from a b c finish_AtKill show ?thesis
    by blast
qed

theorem every_trigger_runs_its_own_cycle_witness:
  "(\<exists>s. sys_run ''.sparkplug-bin''
          [Notify write_main cycle_ok, Notify artifact_linux cycle_ok, Hit cycle_broken, Receive,
           WatcherStep, HandlerStep 0, WatcherStep, HandlerStep 0, WatcherStep, HandlerStep 0,
           WatcherStep, HandlerStep 0, WatcherStep, Receive]
          (idle_state world0) = Some s
        \<and> idle s \<and> count_list (trace (shared s)) BuilderBuild = 2)
   \<and> (\<exists>s. sys_run ''.sparkplug-bin''
          [Notify write_main cycle_ok, Receive, WatcherStep, WatcherStep,
           Hit cycle_broken, HandlerStep 0, HandlerStep 0]
          (idle_state world0) = Some s
        \<and> builds_in_progress s = 2)"
proof -
  let ?sched = "[Notify write_main cycle_ok, Notify artifact_linux cycle_ok, Hit cycle_broken,
           Receive, WatcherStep, HandlerStep 0, WatcherStep, HandlerStep 0, WatcherStep,
           HandlerStep 0, WatcherStep, HandlerStep 0, WatcherStep, Receive]"
  obtain s where s: "sys_run ''.sparkplug-bin'' ?sched (idle_state world0) = Some s" "idle s"
    using mixed_run by blast
  have n: "length (filter (\<lambda>p. triggers ''.sparkplug-bin'' (fst p)) (notified ?sched)) = 1"
    "hits ?sched = 1"
    by (simp_all add: triggers_write_main not_triggers_artifact_linux)
  have t: "count_list (trace world0) BuilderBuild = 0"
    by (simp add: world0_def)
  note th = every_trigger_runs_its_own_cycle [where bin = "''.sparkplug-bin''" and w = world0
      and event = write_main and e = cycle_ok and e' = cycle_broken]
  have "count_list (trace (shared s)) BuilderBuild = 2"
    using th [where sched = ?sched and s = s, THEN conjunct1] s n t by simp
  then have first: "\<exists>s. sys_run ''.sparkplug-bin'' ?sched (idle_state world0) = Some s
        \<and> idle s \<and> count_list (trace (shared s)) BuilderBuild = 2"
    using s by blast
  have second: "\<exists>s. sys_run ''.sparkplug-bin''
          [Notify write_main cycle_ok, Receive, WatcherStep, WatcherStep,
           Hit cycle_broken, HandlerStep 0, HandlerStep 0]
          (idle_state world0) = Some s
        \<and> builds_in_progress s = 2"
    using th [THEN conjunct2, THEN conjunct2, THEN conjunct1] triggers_write_main by blast
  from first second show ?thesis
    by blast
qed

lemma Binary_windows: "Binary (builder world_windows) = ''.sparkplug-bin.exe''"
  by (simp add: world_windows_def Binary_def NewBuilder_def HasSuffix_def Let_def)

text \<open>
  C7 fails on Windows. \<^verbatim>\<open>NewBuilder\<close> appends \<open>.exe\<close> to the name of the artifact, but
  \<^verbatim>\<open>createWatcher\<close> is given the flag as it was typed and compares the paths with that.
  With the default flags the artifact is \<open>.sparkplug-bin.exe\<close>; a write notification for
  it passes the filter and the loop runs a rebuild cycle.
\<close>

theorem artifact_event_rebuilds_on_windows:
  "Binary (NewBuilder ''windows'' (flag_path default_flags) (flag_bin default_flags)
             (flag_godep default_flags)) = ''.sparkplug-bin.exe''
   \<and> HasSuffix (Name artifact_windows) ''.sparkplug-bin.exe''
   \<and> triggers (flag_bin default_flags) artifact_windows
   \<and> trace (watcher_loop (flag_bin default_flags) [(artifact_windows, cycle_ok)] world_windows) =
       [RunnerKill, BuilderBuild, RunnerRun, TimeSleep 100]"
proof -
  have n: "Name artifact_windows = ''C:'' @ [CHR 0x5C] @ ''app'' @ [CHR 0x5C] @ ''.sparkplug-bin.exe''"
    by (simp add: artifact_windows_def Binary_windows)
  have b: "Binary (NewBuilder ''windows'' (flag_path default_flags) (flag_bin default_flags)
             (flag_godep default_flags)) = ''.sparkplug-bin.exe''"
    by (simp add: default_flags_def Binary_def NewBuilder_def HasSuffix_def Let_def)
  have s: "HasSuffix (Name artifact_windows) ''.sparkplug-bin.exe''"
    by (simp add: n HasSuffix_def)
  have o: "Op artifact_windows = Write"
    by (simp add: artifact_windows_def)
  have t: "triggers ''.sparkplug-bin'' artifact_windows"
    by (simp add: triggers_def n o HasSuffix_def Write_def)
  have ok: "fst (Build toolchain_ok (builder world_windows)) = None"
    by (simp add: Build_fst toolchain_ok_def)
  have tr: "trace (watcher_loop ''.sparkplug-bin'' [(artifact_windows, cycle_ok)] world_windows) =
       [RunnerKill, BuilderBuild, RunnerRun, TimeSleep 100]"
    using t ok by (simp add: trace_rebuilder cycle_ok_def) (simp add: world_windows_def world0_def)
  have fb: "flag_bin default_flags = ''.sparkplug-bin''"
    by (simp add: default_flags_def)
  from b s t tr show ?thesis
    by (simp add: fb)
qed

text \<open>
  Where the builder leaves the name as it was typed (any platform but Windows, or a name
  that ends in \<open>.exe\<close>), a notification for the artifact or for its umask variant never
  passes the filter.
\<close>

lemma artifact_event_filtered:
  assumes "GOOS \<noteq> ''windows'' \<or> HasSuffix bin ''.exe''" and "bin \<noteq> ''''"
    and "HasSuffix (Name event) (Binary (NewBuilder GOOS d bin godep))
         \<or> HasSuffix (Name event) (Binary (NewBuilder GOOS d bin godep) @ ''-go-tmp-umask'')"
  shows "\<not> triggers bin event"
proof -
  have "Binary (NewBuilder GOOS d bin godep) = bin"
    using assms(1,2) by (auto simp: Binary_def NewBuilder_def Let_def)
  with assms(3) show ?thesis
    by (auto simp: triggers_def Let_def)
qed

section \<open>Startup\<close>

text \<open>
  C5, as stated, fails: the proxy is started first. In a startup in which nothing fails,
  \<^verbatim>\<open>proxy.Run\<close> has returned (``Listening on port'') before the first \<^verbatim>\<open>Builder.Build\<close>
  is called, and no build precedes it.
\<close>

theorem proxy_runs_before_first_build:
  "calls_of (mainAction_startup ''linux'' default_flags Map.empty startup_ok) =
     [Setenv ''PORT'' ''3001'', Getwd, ProxyRun, BuilderBuild, RunnerRun, TimeSleep 100,
      FilepathAbs, NewWatcher, WatcherAdd]
   \<and> \<not> precedes BuilderBuild ProxyRun
         (calls_of (mainAction_startup ''linux'' default_flags Map.empty startup_ok))"
proof -
  obtain w where w: "mainAction_startup ''linux'' default_flags Map.empty startup_ok = Inr w"
    using startup_ok_normal by blast
  have fb: "toolchain (first_build startup_ok) = toolchain_ok"
    by (simp add: startup_ok_def cycle_ok_def)
  have "trace w = [Setenv ''PORT'' ''3001'', Getwd, ProxyRun, BuilderBuild, RunnerRun,
      TimeSleep 100, FilepathAbs, NewWatcher, WatcherAdd]"
    using mainAction_startup_Inr [OF w]
    by (simp add: fb Build_ok_any default_flags_simps Itoa_3001)
  then show ?thesis
    by (simp add: w calls_of_def)
qed

text \<open>
  C5, amended. On a normal startup the program starts the proxy on the listen port and then
  performs exactly one build-and-(conditionally)-start cycle; in the main file with the
  watcher this build is made before the watcher is created. No build is made before the
  proxy is started. This holds for both main files.
\<close>

theorem startup_order:
  "(mainAction_startup GOOS c env0 se = Inr w \<longrightarrow>
      precedes ProxyRun BuilderBuild (trace w) \<and> \<not> precedes BuilderBuild ProxyRun (trace w)
      \<and> count_list (trace w) BuilderBuild = 1
      \<and> precedes BuilderBuild NewWatcher (trace w))
   \<and> (mainAction_p1 GOOS c env0 se = Inr w \<longrightarrow>
      precedes ProxyRun BuilderBuild (trace w) \<and> \<not> precedes BuilderBuild ProxyRun (trace w)
      \<and> count_list (trace w) BuilderBuild = 1)"
proof (intro conjI impI)
  assume a: "mainAction_startup GOOS c env0 se = Inr w"
  note t = mainAction_startup_Inr [OF a, THEN conjunct1]
  show "precedes ProxyRun BuilderBuild (trace w)" by (simp add: t)
  show "\<not> precedes BuilderBuild ProxyRun (trace w)" by (simp add: t)
  show "count_list (trace w) BuilderBuild = 1" by (simp add: t)
  show "precedes BuilderBuild NewWatcher (trace w)" by (simp add: t)
next
  assume a: "mainAction_p1 GOOS c env0 se = Inr w"
  note t = mainAction_p1_Inr [OF a, THEN conjunct1]
  show "precedes ProxyRun BuilderBuild (trace w)" by (simp add: t)
  show "\<not> precedes BuilderBuild ProxyRun (trace w)" by (simp add: t)
  show "count_list (trace w) BuilderBuild = 1" by (simp add: t)
qed

theorem startup_order_witness:
  "(\<exists>w. mainAction_startup ''linux'' default_flags Map.empty startup_ok = Inr w
        \<and> precedes ProxyRun BuilderBuild (trace w) \<and> \<not> precedes BuilderBuild ProxyRun (trace w)
        \<and> count_list (trace w) BuilderBuild = 1)
   \<and> (\<exists>w. mainAction_p1 ''linux'' default_flags Map.empty startup_ok = Inr w
        \<and> precedes ProxyRun BuilderBuild (trace w) \<and> \<not> precedes BuilderBuild ProxyRun (trace w)
        \<and> count_list (trace w) BuilderBuild = 1)"
proof -
  obtain w where w: "mainAction_startup ''linux'' default_flags Map.empty startup_ok = Inr w"
    using startup_ok_normal by blast
  obtain v where v: "mainAction_p1 ''linux'' default_flags Map.empty startup_ok = Inr v"
    using p1_ok_normal by blast
  show ?thesis
    using w v startup_order [of "''linux''" default_flags Map.empty startup_ok w]
      startup_order [of "''linux''" default_flags Map.empty startup_ok v]
    by simp
qed

text \<open>
  C10. At startup \<^verbatim>\<open>PORT\<close> is set to the decimal form of the application port, before
  any other call, and the backend address of the proxy is \<open>http://localhost:\<close> followed by
  the same digits. Neither the variable nor the configuration is changed by any later
  build or rebuild cycle, so the two agree whenever the runner spawns a child. This holds
  for both main files.
\<close>

theorem PORT_is_backend_port:
  "(mainAction_startup GOOS c env0 se = Inr w \<longrightarrow>
      environ (watcher_loop bin events w) ''PORT'' = Some (Itoa (flag_appPort c))
      \<and> ProxyTo (config (watcher_loop bin events w)) = ''http://localhost:'' @ Itoa (flag_appPort c)
      \<and> take 1 (trace (watcher_loop bin events w)) = [Setenv ''PORT'' (Itoa (flag_appPort c))])
   \<and> (mainAction_p1 GOOS c env0 se = Inr w \<longrightarrow>
      environ (fold rebuilder_p1 es w) ''PORT'' = Some (Itoa (flag_appPort c))
      \<and> ProxyTo (config (fold rebuilder_p1 es w)) = ''http://localhost:'' @ Itoa (flag_appPort c)
      \<and> take 1 (trace (fold rebuilder_p1 es w)) = [Setenv ''PORT'' (Itoa (flag_appPort c))])
   \<and> environ (build e v) = environ v \<and> config (build e v) = config v
   \<and> environ (rebuilder e v) = environ v \<and> config (rebuilder e v) = config v
   \<and> environ (rebuilder_p1 e v) = environ v \<and> config (rebuilder_p1 e v) = config v"
proof -
  have A: "mainAction_startup GOOS c env0 se = Inr w \<longrightarrow>
      environ (watcher_loop bin events w) ''PORT'' = Some (Itoa (flag_appPort c))
      \<and> ProxyTo (config (watcher_loop bin events w)) = ''http://localhost:'' @ Itoa (flag_appPort c)
      \<and> take 1 (trace (watcher_loop bin events w)) = [Setenv ''PORT'' (Itoa (flag_appPort c))]"
  proof (intro conjI impI)
    assume a: "mainAction_startup GOOS c env0 se = Inr w"
    note f = mainAction_startup_Inr [OF a]
    show "environ (watcher_loop bin events w) ''PORT'' = Some (Itoa (flag_appPort c))"
      by (simp add: frame_watcher_loop f)
    show "ProxyTo (config (watcher_loop bin events w)) = ''http://localhost:'' @ Itoa (flag_appPort c)"
      by (simp add: frame_watcher_loop f)
    obtain rest where "trace (watcher_loop bin events w) = trace w @ rest"
      using trace_watcher_loop_prefix by blast
    then show "take 1 (trace (watcher_loop bin events w)) = [Setenv ''PORT'' (Itoa (flag_appPort c))]"
      by (simp add: f)
  qed
  have B: "mainAction_p1 GOOS c env0 se = Inr w \<longrightarrow>
      environ (fold rebuilder_p1 es w) ''PORT'' = Some (Itoa (flag_appPort c))
      \<and> ProxyTo (config (fold rebuilder_p1 es w)) = ''http://localhost:'' @ Itoa (flag_appPort c)
      \<and> take 1 (trace (fold rebuilder_p1 es w)) = [Setenv ''PORT'' (Itoa (flag_appPort c))]"
  proof (intro conjI impI)
    assume a: "mainAction_p1 GOOS c env0 se = Inr w"
    note f = mainAction_p1_Inr [OF a]
    show "environ (fold rebuilder_p1 es w) ''PORT'' = Some (Itoa (flag_appPort c))"
      by (simp add: frame_fold_rebuilder_p1 f)
    show "ProxyTo (config (fold rebuilder_p1 es w)) = ''http://localhost:'' @ Itoa (flag_appPort c)"
      by (simp add: frame_fold_rebuilder_p1 f)
    obtain rest where "trace (fold rebuilder_p1 es w) = trace w @ rest"
      using trace_fold_rebuilder_p1_prefix by blast
    then show "take 1 (trace (fold rebuilder_p1 es w)) = [Setenv ''PORT'' (Itoa (flag_appPort c))]"
      by (simp add: f)
  qed
  have C: "environ (build e v) = environ v \<and> config (build e v) = config v
      \<and> environ (rebuilder e v) = environ v \<and> config (rebuilder e v) = config v
      \<and> environ (rebuilder_p1 e v) = environ v \<and> config (rebuilder_p1 e v) = config v"
    by (simp add: frame_build frame_rebuilder frame_rebuilder_p1)
  from A B C show ?thesis
    by blast
qed

theorem PORT_is_backend_port_witness:
  "(\<exists>w. mainAction_startup ''linux'' default_flags Map.empty startup_ok = Inr w
        \<and> environ (watcher_loop ''.sparkplug-bin'' [(write_main, cycle_ok)] w) ''PORT'' = Some ''3001''
        \<and> ProxyTo (config (watcher_loop ''.sparkplug-bin'' [(write_main, cycle_ok)] w)) =
            ''http://localhost:3001'')
   \<and> (\<exists>w. mainAction_p1 ''linux'' default_flags Map.empty startup_ok = Inr w
        \<and> environ (fold rebuilder_p1 [cycle_ok] w) ''PORT'' = Some ''3001''
        \<and> ProxyTo (config (fold rebuilder_p1 [cycle_ok] w)) = ''http://localhost:3001'')"
proof -
  obtain w where w: "mainAction_startup ''linux'' default_flags Map.empty startup_ok = Inr w"
    using startup_ok_normal by blast
  obtain v where v: "mainAction_p1 ''linux'' default_flags Map.empty startup_ok = Inr v"
    using p1_ok_normal by blast
  have "environ (watcher_loop ''.sparkplug-bin'' [(write_main, cycle_ok)] w) ''PORT'' = Some ''3001''
        \<and> ProxyTo (config (watcher_loop ''.sparkplug-bin'' [(write_main, cycle_ok)] w)) =
            ''http://localhost:3001''"
    using w PORT_is_backend_port [where GOOS = "''linux''" and c = default_flags
        and ?env0.0 = Map.empty and se = startup_ok and w = w and bin = "''.sparkplug-bin''"
        and events = "[(write_main, cycle_ok)]", THEN conjunct1]
    by (simp add: default_flags_simps Itoa_3001)
  moreover have "environ (fold rebuilder_p1 [cycle_ok] v) ''PORT'' = Some ''3001''
        \<and> ProxyTo (config (fold rebuilder_p1 [cycle_ok] v)) = ''http://localhost:3001''"
    using v PORT_is_backend_port [where GOOS = "''linux''" and c = default_flags
        and ?env0.0 = Map.empty and se = startup_ok and w = v and es = "[cycle_ok]",
        THEN conjunct2, THEN conjunct1]
    by (simp add: default_flags_simps Itoa_3001)
  ultimately show ?thesis
    using w v by blast
qed

section \<open>Signals\<close>

text \<open>
  C6, as stated, fails for the main file without the watcher: its signal handler kills the
  child and then calls \<^verbatim>\<open>os.Exit(1)\<close>, also when the child was stopped without error.
\<close>

theorem shutdown_handler_exits_1:
  "fst (Kill True (runner world_running)) = None
   \<and> \<not> status (shutdown_handler True world_running) = 0"
  by (simp add: shutdown_handler_def Let_def Kill_def world_running_def world0_def
      split: prod.splits)

text \<open>
  C6, amended. In the main file with the watcher, \<^verbatim>\<open>mainAction\<close> ends in
  \<^verbatim>\<open>blockUntilExit\<close>: on the signal the child is killed; if \<^verbatim>\<open>Kill\<close> reports no error
  the child is stopped, the watcher is closed and the program exits with status 0; if
  \<^verbatim>\<open>Kill\<close> reports an error, the error is logged by \<^verbatim>\<open>logger.Fatalf\<close> and the program
  exits with status 1 at once. In the main file without the watcher the handler logs the
  signal, kills the child, prints an error of \<^verbatim>\<open>Kill\<close> if there is one, and exits with
  status 1 in every case.
\<close>

theorem signal_shutdown:
  "(mainAction_startup GOOS c env0 se = Inr w0 \<longrightarrow>
      mainAction GOOS c env0 se events exited =
        blockUntilExit exited (watcher_loop (flag_bin c) events w0))
   \<and> (fst (Kill exited (runner w)) = None \<longrightarrow>
      blockUntilExit exited w =
        \<lparr>status = 0, final_trace = trace w @ [SignalNotify, RunnerKill, WatcherClose],
         final_logged = logged w\<rparr>
      \<and> pstate (snd (Kill exited (runner w))) = Stopped)
   \<and> (fst (Kill exited (runner w)) = Some x \<longrightarrow>
      blockUntilExit exited w =
        \<lparr>status = 1, final_trace = trace w @ [SignalNotify, RunnerKill],
         final_logged = logged w @ [LoggerFatalf ''ERROR! Could not kill server: %v.'' [ErrArg x]]\<rparr>)
   \<and> status (shutdown_handler exited w) = 1
   \<and> final_trace (shutdown_handler exited w) = trace w @ [RunnerKill]
   \<and> final_logged (shutdown_handler exited w) =
        logged w @ [LoggerPrintln ''Got signal: '' [SignalArg]]
          @ (case fst (Kill exited (runner w)) of
               Some y \<Rightarrow> [LoggerPrint ''Error killing: '' [ErrArg y]]
             | None \<Rightarrow> [])"
proof -
  have a: "fst (Kill exited (runner w)) = None \<longrightarrow>
      blockUntilExit exited w =
        \<lparr>status = 0, final_trace = trace w @ [SignalNotify, RunnerKill, WatcherClose],
         final_logged = logged w\<rparr>
      \<and> pstate (snd (Kill exited (runner w))) = Stopped"
    by (auto simp: blockUntilExit_def Let_def Kill_stopped split: prod.splits option.splits)
  have b: "fst (Kill exited (runner w)) = Some x \<longrightarrow>
      blockUntilExit exited w =
        \<lparr>status = 1, final_trace = trace w @ [SignalNotify, RunnerKill],
         final_logged = logged w @ [LoggerFatalf ''ERROR! Could not kill server: %v.'' [ErrArg x]]\<rparr>"
    by (auto simp: blockUntilExit_def Let_def fatal_def split: prod.splits option.splits)
  have c: "status (shutdown_handler exited w) = 1"
    by (simp add: shutdown_handler_def Let_def split: prod.splits option.splits)
  have d: "final_trace (shutdown_handler exited w) = trace w @ [RunnerKill]"
    by (simp add: shutdown_handler_def Let_def split: prod.splits option.splits)
  have e: "final_logged (shutdown_handler exited w) =
        logged w @ [LoggerPrintln ''Got signal: '' [SignalArg]]
          @ (case fst (Kill exited (runner w)) of
               Some y \<Rightarrow> [LoggerPrint ''Error killing: '' [ErrArg y]]
             | None \<Rightarrow> [])"
    by (simp add: shutdown_handler_def Let_def split: prod.splits option.splits)
  have m: "mainAction_startup GOOS c env0 se = Inr w0 \<longrightarrow>
      mainAction GOOS c env0 se events exited =
        blockUntilExit exited (watcher_loop (flag_bin c) events w0)"
    by (simp add: mainAction_def)
  from m a b c d e show ?thesis by blast
qed

theorem signal_shutdown_witness:
  "status (mainAction ''linux'' default_flags Map.empty startup_ok [(write_main, cycle_ok)] True) = 0
   \<and> status (blockUntilExit True world_running) = 0
   \<and> final_trace (blockUntilExit True world_running) = [SignalNotify, RunnerKill, WatcherClose]
   \<and> status (blockUntilExit False world_running) = 1
   \<and> final_trace (blockUntilExit False world_running) = [SignalNotify, RunnerKill]"
proof -
  obtain v where v: "mainAction_startup ''linux'' default_flags Map.empty startup_ok = Inr v"
    using startup_ok_normal by blast
  let ?W = "watcher_loop (flag_bin default_flags) [(write_main, cycle_ok)] v"
  have kW: "fst (Kill True (runner ?W)) = None"
    by (simp add: Kill_def)
  have m: "status (mainAction ''linux'' default_flags Map.empty startup_ok
                     [(write_main, cycle_ok)] True) = 0"
    using v kW
      signal_shutdown [where GOOS = "''linux''" and c = default_flags and ?env0.0 = Map.empty
        and se = startup_ok and ?w0.0 = v and events = "[(write_main, cycle_ok)]"
        and exited = True and w = ?W]
    by simp
  have k: "fst (Kill True (runner world_running)) = None"
    by (simp add: Kill_def world_running_def)
  have f: "fst (Kill False (runner world_running)) = Some (RunnerError ''process did not stop'')"
    by (simp add: Kill_def world_running_def)
  have t: "trace world_running = []"
    by (simp add: world_running_def world0_def)
  show ?thesis
    using m k f t signal_shutdown [where exited = True and w = world_running]
      signal_shutdown [where exited = False and w = world_running
        and x = "RunnerError ''process did not stop''"]
    by simp
qed

end
